theory Spec2Isabelle
  imports Complex_Main "HOL-Library.AList"
begin

section \<open>World Coffee Tour: the map tile prefetcher and the post importer\<close>

text \<open>
  The client-side script draws one marker per coffee post and then warms the
  browser cache with map tiles: \<^verbatim>\<open>prefetchTilesForCoffeePosts\<close> groups the
  posts, \<^verbatim>\<open>prefetchBoundsAtZoom\<close> enumerates the tiles covering a padded
  bounding box, \<^verbatim>\<open>getTileBounds\<close> computes tile indices and
  \<^verbatim>\<open>prefetchTile\<close> issues one image request.

  Console output is left out, and so is the array \<^verbatim>\<open>prefetchPromises\<close>, which
  the script fills and never reads. A promise is represented by the count of
  promises resolved so far.

  Numbers. JavaScript numbers are IEEE doubles. The model computes with exact
  reals and integers and keeps one special value, NaN, which is what
  \<^verbatim>\<open>Math.log\<close> returns for a negative argument and what every later
  operation propagates. At latitudes where the cosine is exactly zero
  (\<open>\<plusminus>90\<close> degrees) real arithmetic has no value for the tangent, while a double
  never hits the pole exactly; the model yields NaN there, and every statement
  about a \<open>y\<close> index of a particular latitude excludes the poles.
\<close>

subsection \<open>JavaScript values\<close>

text \<open>The value of an optional numeric field of a post object.\<close>

datatype jsval = JUndefined | JNull | JNumber real | JNaN

text \<open>ToBoolean: \<^verbatim>\<open>undefined\<close>, \<^verbatim>\<open>null\<close>, \<^verbatim>\<open>0\<close> and \<^verbatim>\<open>NaN\<close> are falsy.\<close>

fun truthy :: "jsval \<Rightarrow> bool" where
  "truthy (JNumber r) = (r \<noteq> 0)"
| "truthy JUndefined = False"
| "truthy JNull = False"
| "truthy JNaN = False"

text \<open>An integer-valued number, as \<^verbatim>\<open>Math.floor\<close> returns it, or NaN.\<close>

datatype tilenum = Num int | NaN

text \<open>\<^verbatim>\<open>a <= b\<close>: every comparison with NaN is false.\<close>

fun js_le :: "tilenum \<Rightarrow> tilenum \<Rightarrow> bool" where
  "js_le (Num a) (Num b) = (a \<le> b)"
| "js_le NaN _ = False"
| "js_le _ NaN = False"

text \<open>\<^verbatim>\<open>a++\<close>.\<close>

fun js_inc :: "tilenum \<Rightarrow> tilenum" where
  "js_inc (Num a) = Num (a + 1)"
| "js_inc NaN = NaN"

text \<open>\<^verbatim>\<open>a + b\<close>.\<close>

fun js_add :: "tilenum \<Rightarrow> tilenum \<Rightarrow> tilenum" where
  "js_add (Num a) (Num b) = Num (a + b)"
| "js_add NaN _ = NaN"
| "js_add _ NaN = NaN"

text \<open>
  \<^verbatim>\<open>a % n\<close> for a positive integer \<open>n\<close>: the remainder takes the sign of the
  dividend, so it is negative for a negative \<open>a\<close> that \<open>n\<close> does not divide.
\<close>

fun js_rem :: "tilenum \<Rightarrow> nat \<Rightarrow> tilenum" where
  "js_rem (Num a) n = Num (sgn a * (\<bar>a\<bar> mod int n))"
| "js_rem NaN n = NaN"

text \<open>\<^verbatim>\<open>Math.min\<close> and \<^verbatim>\<open>Math.max\<close>: NaN if either argument is NaN.\<close>

fun Math_min :: "tilenum \<Rightarrow> tilenum \<Rightarrow> tilenum" where
  "Math_min (Num a) (Num b) = Num (min a b)"
| "Math_min NaN _ = NaN"
| "Math_min _ NaN = NaN"

fun Math_max :: "tilenum \<Rightarrow> tilenum \<Rightarrow> tilenum" where
  "Math_max (Num a) (Num b) = Num (max a b)"
| "Math_max NaN _ = NaN"
| "Math_max _ NaN = NaN"

text \<open>
  \<^verbatim>\<open>Math.log\<close> on a real: \<open>None\<close> is a result that is not a finite number.
  For a negative argument that is NaN. The argument \<open>0\<close> (minus infinity in
  JavaScript) arises in \<^verbatim>\<open>getTileBounds\<close> only at a pole.
\<close>

definition Math_log :: "real \<Rightarrow> real option" where
  "Math_log v = (if v \<le> 0 then None else Some (ln v))"

text \<open>\<^verbatim>\<open>Math.floor\<close> of a finite number or of NaN.\<close>

fun Math_floor :: "real option \<Rightarrow> tilenum" where
  "Math_floor (Some v) = Num \<lfloor>v\<rfloor>"
| "Math_floor None = NaN"

text \<open>\<^verbatim>\<open>Math.pow(2, zoom)\<close> for a zoom level.\<close>

definition Math_pow :: "real \<Rightarrow> nat \<Rightarrow> real" where
  "Math_pow b e = b ^ e"

text \<open>Number to string, as a template literal prints an integer or NaN.\<close>

definition digit_char :: "nat \<Rightarrow> char" where
  "digit_char d = ''0123456789'' ! d"

fun show_nat :: "nat \<Rightarrow> string" where
  "show_nat n = (if n < 10 then [digit_char n] else show_nat (n div 10) @ [digit_char (n mod 10)])"

declare show_nat.simps [simp del]

definition show_int :: "int \<Rightarrow> string" where
  "show_int i = (if i < 0 then CHR ''-'' # show_nat (nat (- i)) else show_nat (nat i))"

fun show_tilenum :: "tilenum \<Rightarrow> string" where
  "show_tilenum (Num i) = show_int i"
| "show_tilenum NaN = ''NaN''"

subsection \<open>Leaflet geometry\<close>

text \<open>
  \<^verbatim>\<open>L.LatLng\<close> and \<^verbatim>\<open>L.LatLngBounds\<close> of the Leaflet library:
  \<^verbatim>\<open>L.latLngBounds(coords)\<close> is the smallest box that contains every point,
  and \<^verbatim>\<open>pad(r)\<close> grows a box by the ratio \<open>r\<close> of its height and width on
  each side.
\<close>

record LatLng =
  lat :: real
  lng :: real

record LatLngBounds =
  southWest :: LatLng
  northEast :: LatLng

definition getSouthWest :: "LatLngBounds \<Rightarrow> LatLng" where
  "getSouthWest b = southWest b"

definition getNorthEast :: "LatLngBounds \<Rightarrow> LatLng" where
  "getNorthEast b = northEast b"

definition extend_bounds :: "LatLngBounds \<Rightarrow> real \<times> real \<Rightarrow> LatLngBounds" where
  "extend_bounds b c =
     \<lparr>southWest = \<lparr>lat = min (fst c) (lat (southWest b)), lng = min (snd c) (lng (southWest b))\<rparr>,
      northEast = \<lparr>lat = max (fst c) (lat (northEast b)), lng = max (snd c) (lng (northEast b))\<rparr>\<rparr>"

fun latLngBounds :: "(real \<times> real) list \<Rightarrow> LatLngBounds option" where
  "latLngBounds [] = None"
| "latLngBounds (c # cs) =
     Some (foldl extend_bounds \<lparr>southWest = \<lparr>lat = fst c, lng = snd c\<rparr>,
                         northEast = \<lparr>lat = fst c, lng = snd c\<rparr>\<rparr> cs)"

definition pad :: "LatLngBounds \<Rightarrow> real \<Rightarrow> LatLngBounds" where
  "pad b bufferRatio =
     (let sw = southWest b; ne = northEast b;
          heightBuffer = \<bar>lat sw - lat ne\<bar> * bufferRatio;
          widthBuffer = \<bar>lng sw - lng ne\<bar> * bufferRatio
      in \<lparr>southWest = \<lparr>lat = lat sw - heightBuffer, lng = lng sw - widthBuffer\<rparr>,
          northEast = \<lparr>lat = lat ne + heightBuffer, lng = lng ne + widthBuffer\<rparr>\<rparr>)"

subsection \<open>Tile indices: getTileBounds\<close>

record point =
  pt_x :: tilenum
  pt_y :: tilenum

record TileBounds =
  tb_min :: point
  tb_max :: point

definition getTileBounds :: "LatLngBounds \<Rightarrow> nat \<Rightarrow> TileBounds" where
  "getTileBounds bounds zoom =
     (let sw = getSouthWest bounds;
          ne = getNorthEast bounds;
          swPoint = \<lparr>
            pt_x = Math_floor (Some ((lng sw + 180) / 360 * Math_pow 2 zoom)),
            pt_y = Math_floor (map_option (\<lambda>l. (1 - l / pi) / 2 * Math_pow 2 zoom)
                     (Math_log (tan (lat sw * pi / 180) + 1 / cos (lat sw * pi / 180))))\<rparr>;
          nePoint = \<lparr>
            pt_x = Math_floor (Some ((lng ne + 180) / 360 * Math_pow 2 zoom)),
            pt_y = Math_floor (map_option (\<lambda>l. (1 - l / pi) / 2 * Math_pow 2 zoom)
                     (Math_log (tan (lat ne * pi / 180) + 1 / cos (lat ne * pi / 180))))\<rparr>
      in \<lparr>tb_min = \<lparr>pt_x = Math_min (pt_x swPoint) (pt_x nePoint),
                     pt_y = Math_min (pt_y swPoint) (pt_y nePoint)\<rparr>,
          tb_max = \<lparr>pt_x = Math_max (pt_x swPoint) (pt_x nePoint),
                     pt_y = Math_max (pt_y swPoint) (pt_y nePoint)\<rparr>\<rparr>)"

text \<open>
  The standard slippy-map formula, as the specification writes it, for a
  longitude and a latitude in degrees.
\<close>

definition slippy_x :: "real \<Rightarrow> nat \<Rightarrow> int" where
  "slippy_x lon zoom = \<lfloor>(lon + 180) / 360 * 2 ^ zoom\<rfloor>"

definition slippy_y :: "real \<Rightarrow> nat \<Rightarrow> int" where
  "slippy_y la zoom =
     \<lfloor>(1 - ln (tan (la * pi / 180) + 1 / cos (la * pi / 180)) / pi) / 2 * 2 ^ zoom\<rfloor>"

text \<open>The latitudes at which the formula has a value: the argument of the logarithm is positive.\<close>

definition mercator_defined :: "real \<Rightarrow> bool" where
  "mercator_defined la \<longleftrightarrow> 0 < tan (la * pi / 180) + 1 / cos (la * pi / 180)"

subsection \<open>The browser state\<close>

record tile =
  tile_x :: tilenum
  tile_y :: tilenum
  tile_z :: nat

text \<open>
  An image request: the \<^verbatim>\<open>src\<close> and \<^verbatim>\<open>crossOrigin\<close> of the
  \<^verbatim>\<open>Image\<close> object, the virtual time in milliseconds at which \<^verbatim>\<open>src\<close>
  was assigned, and the tile it was built for.
\<close>

record image_request =
  req_time :: nat
  req_tile :: tile
  src :: string
  crossOrigin :: string

text \<open>
  The closure \<^verbatim>\<open>prefetchNext\<close> of one \<^verbatim>\<open>prefetchBoundsAtZoom\<close> call,
  with the variables it captures: \<^verbatim>\<open>tilesToFetch\<close> and the current
  \<^verbatim>\<open>index\<close>.
\<close>

datatype timer_callback = PrefetchNext "tile list" nat

text \<open>
  What the script can see and change: whether \<^verbatim>\<open>window.mainTileLayer\<close> is
  set, the virtual clock, the pending \<^verbatim>\<open>setTimeout\<close> callbacks with the time
  each is due (in firing order), the image requests issued so far, and the
  number of promises resolved.
\<close>

record browser =
  mainTileLayer :: bool
  now :: nat
  timers :: "(nat \<times> timer_callback) list"
  requests :: "image_request list"
  resolved :: nat

text \<open>
  \<^verbatim>\<open>setTimeout(cb, delay)\<close>: timers fire in the order of their due times, and
  timers due at the same time in the order in which they were registered.
\<close>

fun insert_timer :: "nat \<times> timer_callback \<Rightarrow> (nat \<times> timer_callback) list
    \<Rightarrow> (nat \<times> timer_callback) list" where
  "insert_timer t [] = [t]"
| "insert_timer t (u # q) = (if fst t < fst u then t # u # q else u # insert_timer t q)"

definition setTimeout :: "timer_callback \<Rightarrow> nat \<Rightarrow> browser \<Rightarrow> browser" where
  "setTimeout cb delay s = s\<lparr>timers := insert_timer (now s + delay, cb) (timers s)\<rparr>"

subsection \<open>prefetchTile\<close>

definition subdomains :: "string list" where
  "subdomains = [''a'', ''b'', ''c'', ''d'']"

text \<open>
  \<^verbatim>\<open>subdomains[i]\<close> inside a template literal: an index that is not one of
  \<open>0, \<dots>, 3\<close> reads \<^verbatim>\<open>undefined\<close>, which prints as such.
\<close>

fun subdomain_at :: "tilenum \<Rightarrow> string" where
  "subdomain_at (Num i) = (if 0 \<le> i \<and> i < int (length subdomains) then subdomains ! nat i else ''undefined'')"
| "subdomain_at NaN = ''undefined''"

definition tile_url :: "tilenum \<Rightarrow> tilenum \<Rightarrow> nat \<Rightarrow> string" where
  "tile_url x y z =
     (let subdomain = subdomain_at (js_rem (js_add x y) (length subdomains))
      in ''https://'' @ subdomain @ ''.basemaps.cartocdn.com/dark_all/'' @ show_nat z @ ''/''
           @ show_tilenum x @ ''/'' @ show_tilenum y @ ''.png'')"

definition prefetchTile :: "tilenum \<Rightarrow> tilenum \<Rightarrow> nat \<Rightarrow> browser \<Rightarrow> browser" where
  "prefetchTile x y z s =
     (let url = tile_url x y z;
          img = \<lparr>req_time = now s, req_tile = \<lparr>tile_x = x, tile_y = y, tile_z = z\<rparr>,
                 src = url, crossOrigin = ''anonymous''\<rparr>
      in s\<lparr>requests := requests s @ [img]\<rparr>)"

text \<open>The two handlers of the image: both bodies are empty.\<close>

definition img_onload :: "image_request \<Rightarrow> browser \<Rightarrow> browser" where
  "img_onload img s = s"

definition img_onerror :: "image_request \<Rightarrow> browser \<Rightarrow> browser" where
  "img_onerror img s = s"

subsection \<open>prefetchBoundsAtZoom\<close>

text \<open>The inner and the outer loop that fill \<^verbatim>\<open>tiles\<close>.\<close>

function for_y :: "tilenum \<Rightarrow> tilenum \<Rightarrow> tilenum \<Rightarrow> nat \<Rightarrow> tile list \<Rightarrow> tile list" where
  "for_y y ymax x zoom tiles =
     (if js_le y ymax
      then for_y (js_inc y) ymax x zoom (tiles @ [\<lparr>tile_x = x, tile_y = y, tile_z = zoom\<rparr>])
      else tiles)"
  by pat_completeness auto
termination
  by (relation "measure (\<lambda>(y, ymax, x, zoom, tiles).
        case (y, ymax) of (Num a, Num b) \<Rightarrow> nat (b - a + 1) | _ \<Rightarrow> 0)")
     (auto elim!: js_le.elims)

function for_x :: "tilenum \<Rightarrow> TileBounds \<Rightarrow> nat \<Rightarrow> tile list \<Rightarrow> tile list" where
  "for_x x tileBounds zoom tiles =
     (if js_le x (pt_x (tb_max tileBounds))
      then for_x (js_inc x) tileBounds zoom
             (for_y (pt_y (tb_min tileBounds)) (pt_y (tb_max tileBounds)) x zoom tiles)
      else tiles)"
  by pat_completeness auto
termination
  by (relation "measure (\<lambda>(x, tileBounds, zoom, tiles).
        case (x, pt_x (tb_max tileBounds)) of (Num a, Num b) \<Rightarrow> nat (b - a + 1) | _ \<Rightarrow> 0)")
     (auto elim!: js_le.elims)

declare for_y.simps [simp del] for_x.simps [simp del]

definition maxTiles :: nat where
  "maxTiles = 20"

text \<open>\<^verbatim>\<open>tiles.slice(0, maxTiles)\<close> of the enumerated tiles.\<close>

definition tilesToFetch :: "LatLngBounds \<Rightarrow> nat \<Rightarrow> tile list" where
  "tilesToFetch bounds zoom =
     (let tileBounds = getTileBounds bounds zoom;
          tiles = for_x (pt_x (tb_min tileBounds)) tileBounds zoom []
      in take maxTiles tiles)"

text \<open>
  One call of \<^verbatim>\<open>prefetchNext\<close>: resolve the promise when the batch is used
  up, otherwise request the tile at \<^verbatim>\<open>index\<close>, advance and come back in
  50 ms.
\<close>

definition prefetchNext :: "tile list \<Rightarrow> nat \<Rightarrow> browser \<Rightarrow> browser" where
  "prefetchNext ts index s =
     (if index \<ge> length ts then s\<lparr>resolved := resolved s + 1\<rparr>
      else let t = ts ! index;
               s1 = prefetchTile (tile_x t) (tile_y t) (tile_z t) s;
               index' = index + 1
           in setTimeout (PrefetchNext ts index') 50 s1)"

definition prefetchBoundsAtZoom :: "LatLngBounds \<Rightarrow> nat \<Rightarrow> browser \<Rightarrow> browser" where
  "prefetchBoundsAtZoom bounds zoom s =
     (if \<not> mainTileLayer s then s\<lparr>resolved := resolved s + 1\<rparr>
      else prefetchNext (tilesToFetch bounds zoom) 0 s)"

subsection \<open>The event loop\<close>

text \<open>
  The next timer fires: the clock moves to its due time (never backwards) and
  its callback runs.
\<close>

definition fire_timer :: "browser \<Rightarrow> browser" where
  "fire_timer s =
     (case timers s of
        [] \<Rightarrow> s
      | (due, PrefetchNext ts index) # rest \<Rightarrow>
          prefetchNext ts index (s\<lparr>now := max (now s) due, timers := rest\<rparr>))"

text \<open>What is left to do for a pending callback, and for all of them.\<close>

fun remaining :: "nat \<times> timer_callback \<Rightarrow> nat" where
  "remaining (due, PrefetchNext ts index) = Suc (length ts - index)"

definition pending_work :: "browser \<Rightarrow> nat" where
  "pending_work s = sum_list (map remaining (timers s))"

text \<open>
  The event loop runs until no timer is pending. It terminates because every
  callback either finishes its batch or advances its index.
\<close>

function run_timers :: "browser \<Rightarrow> browser" where
  "run_timers s = (if timers s = [] then s else run_timers (fire_timer s))"
  by pat_completeness auto
termination
proof (relation "measure pending_work")
  show "wf (measure pending_work)" by simp
next
  fix s :: browser
  assume ne: "timers s \<noteq> []"
  have ins: "sum_list (map remaining (insert_timer t q)) = remaining t + sum_list (map remaining q)"
    for t q by (induction q) auto
  obtain due ts index rest where q: "timers s = (due, PrefetchNext ts index) # rest"
    using ne by (cases "timers s") (auto intro: timer_callback.exhaust prod.exhaust
        elim!: remaining.elims)
  have "pending_work (fire_timer s) < pending_work s"
    using q
    by (auto simp: fire_timer_def pending_work_def prefetchNext_def prefetchTile_def
        setTimeout_def Let_def ins)
  then show "(fire_timer s, s) \<in> measure pending_work" by simp
qed

declare run_timers.simps [simp del]

text \<open>
  Events the browser delivers to the script while the pass is under way: the
  next timer fires, or an image finishes loading, or an image fails to load.
\<close>

datatype event = TimerFires | ImageLoaded image_request | ImageFailed image_request

fun handle_event :: "browser \<Rightarrow> event \<Rightarrow> browser" where
  "handle_event s TimerFires = fire_timer s"
| "handle_event s (ImageLoaded img) = img_onload img s"
| "handle_event s (ImageFailed img) = img_onerror img s"

subsection \<open>Posts, markers and grouping\<close>

text \<open>
  A post object of \<^verbatim>\<open>coffeePostsData\<close>. A text field that is \<^verbatim>\<open>null\<close> or
  absent is \<open>None\<close>. Strings are ASCII in the model.
\<close>

record post =
  title :: string
  url :: string
  latitude :: jsval
  longitude :: jsval
  continent :: "string option"
  country :: "string option"
  city :: "string option"

text \<open>The number held by a truthy coordinate.\<close>

fun the_number :: "jsval \<Rightarrow> real" where
  "the_number (JNumber r) = r"
| "the_number _ = 0"

record marker =
  marker_at :: "real \<times> real"
  marker_post :: post

text \<open>The marker loop of the index page: \<^verbatim>\<open>coffeePostsData.forEach\<close>.\<close>

definition addMarkers :: "post list \<Rightarrow> marker list" where
  "addMarkers coffeePostsData =
     foldl (\<lambda>markers p.
        if truthy (latitude p) \<and> truthy (longitude p)
        then markers @ [\<lparr>marker_at = (the_number (latitude p), the_number (longitude p)),
                           marker_post = p\<rparr>]
        else markers) [] coffeePostsData"

definition toLowerCase :: "string \<Rightarrow> string" where
  "toLowerCase s =
     map (\<lambda>c. case map_of (zip ''ABCDEFGHIJKLMNOPQRSTUVWXYZ'' ''abcdefghijklmnopqrstuvwxyz'') c of
                 Some d \<Rightarrow> d | None \<Rightarrow> c) s"

text \<open>The ASCII characters that \<^verbatim>\<open>\s\<close> matches.\<close>

definition is_space :: "char \<Rightarrow> bool" where
  "is_space c \<longleftrightarrow> c \<in> set [CHR '' '', CHR 0x09, CHR 0x0A, CHR 0x0B, CHR 0x0C, CHR 0x0D]"

text \<open>\<^verbatim>\<open>.replace(/\s/g, '-')\<close>.\<close>

definition replace_spaces :: "string \<Rightarrow> string" where
  "replace_spaces s = map (\<lambda>c. if is_space c then CHR ''-'' else c) s"

text \<open>
  A plain object \<^verbatim>\<open>{}\<close> used as a dictionary of coordinate arrays: its own
  properties in insertion order. Reading a key that is not an own property finds
  the properties every object inherits from \<^verbatim>\<open>Object.prototype\<close>.
\<close>

type_synonym groups = "(string \<times> (real \<times> real) list) list"

definition Object_prototype_keys :: "string list" where
  "Object_prototype_keys =
     [''constructor'', ''__defineGetter__'', ''__defineSetter__'', ''hasOwnProperty'',
      ''__lookupGetter__'', ''__lookupSetter__'', ''isPrototypeOf'', ''propertyIsEnumerable'',
      ''toString'', ''valueOf'', ''__proto__'', ''toLocaleString'']"

datatype js_error = TypeError

text \<open>
  \<^verbatim>\<open>if (!obj[k]) obj[k] = []; obj[k].push(c);\<close> An own array is extended in
  place. A missing key gets a new array, unless the key names an inherited
  property: that value is truthy and has no \<^verbatim>\<open>push\<close>, and the call throws.
\<close>

definition push_coord :: "groups \<Rightarrow> string \<Rightarrow> real \<times> real \<Rightarrow> js_error + groups" where
  "push_coord obj k c =
     (case map_of obj k of
        Some cs \<Rightarrow> Inr (AList.update k (cs @ [c]) obj)
      | None \<Rightarrow> if k \<in> set Object_prototype_keys then Inl TypeError else Inr (obj @ [(k, [c])]))"

text \<open>The three dictionaries \<^verbatim>\<open>regions\<close>, \<^verbatim>\<open>countries\<close> and \<^verbatim>\<open>cities\<close>.\<close>

record grouping =
  regions :: groups
  countries :: groups
  cities :: groups

text \<open>The body of \<^verbatim>\<open>coffeePosts.forEach\<close> in \<^verbatim>\<open>prefetchTilesForCoffeePosts\<close>.\<close>

definition group_post :: "grouping \<Rightarrow> post \<Rightarrow> js_error + grouping" where
  "group_post g p =
     (if \<not> truthy (latitude p) \<or> \<not> truthy (longitude p) then Inr g
      else
        let coord = (the_number (latitude p), the_number (longitude p));
            continent' = map_option (\<lambda>c. replace_spaces (toLowerCase c)) (continent p);
            country' = country p;
            city' = city p
        in case (case continent' of
                   Some k \<Rightarrow> if k \<noteq> [] \<and> k \<noteq> ''unknown''
                             then map_sum id (\<lambda>r. g\<lparr>regions := r\<rparr>) (push_coord (regions g) k coord)
                             else Inr g
                 | None \<Rightarrow> Inr g) of
             Inl e \<Rightarrow> Inl e
           | Inr g1 \<Rightarrow>
             (case (case country' of
                      Some k \<Rightarrow> if k \<noteq> [] \<and> k \<noteq> ''Unknown''
                                then map_sum id (\<lambda>r. g1\<lparr>countries := r\<rparr>) (push_coord (countries g1) k coord)
                                else Inr g1
                    | None \<Rightarrow> Inr g1) of
                Inl e \<Rightarrow> Inl e
              | Inr g2 \<Rightarrow>
                (case city' of
                   Some k \<Rightarrow> if k \<noteq> [] \<and> k \<noteq> ''Unknown''
                             then map_sum id (\<lambda>r. g2\<lparr>cities := r\<rparr>) (push_coord (cities g2) k coord)
                             else Inr g2
                 | None \<Rightarrow> Inr g2)))"

text \<open>\<^verbatim>\<open>forEach\<close>: an exception in the callback ends the loop.\<close>

fun group_posts :: "grouping \<Rightarrow> post list \<Rightarrow> js_error + grouping" where
  "group_posts g [] = Inr g"
| "group_posts g (p # ps) = (case group_post g p of Inl e \<Rightarrow> Inl e | Inr g' \<Rightarrow> group_posts g' ps)"

text \<open>
  \<^verbatim>\<open>Object.entries\<close>: the own keys that are array indices (canonical decimal
  numerals below \<open>2\<^sup>3\<^sup>2 - 1\<close>) come first, in ascending numeric order; all
  other keys follow in insertion order.
\<close>

definition digit_of :: "char \<Rightarrow> nat option" where
  "digit_of c = map_of (zip ''0123456789'' [0, 1, 2, 3, 4, 5, 6, 7, 8, 9]) c"

fun parse_nat :: "nat \<Rightarrow> string \<Rightarrow> nat option" where
  "parse_nat acc [] = Some acc"
| "parse_nat acc (c # cs) =
     (case digit_of c of None \<Rightarrow> None | Some d \<Rightarrow> parse_nat (10 * acc + d) cs)"

definition array_index :: "string \<Rightarrow> nat option" where
  "array_index k =
     (if k = [] \<or> (length k > 1 \<and> hd k = CHR ''0'') then None
      else case parse_nat 0 k of
             None \<Rightarrow> None
           | Some n \<Rightarrow> if n < 2 ^ 32 - 1 then Some n else None)"

definition Object_entries :: "groups \<Rightarrow> (string \<times> (real \<times> real) list) list" where
  "Object_entries obj =
     sort_key (\<lambda>e. the (array_index (fst e))) (filter (\<lambda>e. array_index (fst e) \<noteq> None) obj)
     @ filter (\<lambda>e. array_index (fst e) = None) obj"

subsection \<open>prefetchTilesForCoffeePosts\<close>

text \<open>Continental views: every group, zoom 4 and then zoom 6.\<close>

definition continent_views :: "groups \<Rightarrow> browser \<Rightarrow> browser" where
  "continent_views rs s =
     foldl (\<lambda>s e.
        if length (snd e) > 0
        then (case latLngBounds (snd e) of
                None \<Rightarrow> s
              | Some bounds \<Rightarrow>
                  prefetchBoundsAtZoom (pad bounds 0.15) 6
                    (prefetchBoundsAtZoom (pad bounds 0.15) 4 s))
        else s) s (Object_entries rs)"

text \<open>Country views: every group, zoom 8 and then zoom 10.\<close>

definition country_views :: "groups \<Rightarrow> browser \<Rightarrow> browser" where
  "country_views cs s =
     foldl (\<lambda>s e.
        if length (snd e) > 0
        then (case latLngBounds (snd e) of
                None \<Rightarrow> s
              | Some bounds \<Rightarrow>
                  prefetchBoundsAtZoom (pad bounds 0.2) 10
                    (prefetchBoundsAtZoom (pad bounds 0.2) 8 s))
        else s) s (Object_entries cs)"

text \<open>City views: only the cities with more than one cafe, zoom 12 and then zoom 14.\<close>

definition city_views :: "groups \<Rightarrow> browser \<Rightarrow> browser" where
  "city_views cs s =
     foldl (\<lambda>s e.
        if length (snd e) > 1
        then (case latLngBounds (snd e) of
                None \<Rightarrow> s
              | Some bounds \<Rightarrow>
                  prefetchBoundsAtZoom (pad bounds 0.3) 14
                    (prefetchBoundsAtZoom (pad bounds 0.3) 12 s))
        else s) s (Object_entries cs)"

text \<open>
  The synchronous part of the pass. \<open>None\<close> for \<^verbatim>\<open>coffeePosts\<close> is
  \<^verbatim>\<open>null\<close> or \<^verbatim>\<open>undefined\<close>. The promises are collected and never awaited.
\<close>

definition prefetchTilesForCoffeePosts :: "post list option \<Rightarrow> browser \<Rightarrow> js_error + browser" where
  "prefetchTilesForCoffeePosts coffeePosts s =
     (if \<not> mainTileLayer s \<or> coffeePosts = None then Inr s
      else case group_posts \<lparr>regions = [], countries = [], cities = []\<rparr> (the coffeePosts) of
             Inl e \<Rightarrow> Inl e
           | Inr g \<Rightarrow>
               Inr (city_views (cities g) (country_views (countries g)
                      (continent_views (regions g) s))))"

text \<open>The whole pass: the synchronous part, then the event loop until it is idle.\<close>

definition prefetch_pass :: "post list option \<Rightarrow> browser \<Rightarrow> js_error + browser" where
  "prefetch_pass coffeePosts s = map_sum id run_timers (prefetchTilesForCoffeePosts coffeePosts s)"

subsection \<open>Post Store and Importer\<close>

text \<open>
  The admin tool (the Python files \<^verbatim>\<open>coffee_db.py\<close> and
  \<^verbatim>\<open>import_instagram_full.py\<close>) is not among the sources; only its
  documentation is. The definitions of this subsection follow the
  specification.
\<close>

text \<open>Modelled from the spec: the post record of the Post Store (section 3), which is missing from the sources.\<close>

record post_record =
  rec_id :: nat
  rec_hash :: string
  rec_title :: string
  rec_date :: string
  rec_notes :: string
  rec_city :: string
  rec_country :: string
  rec_continent :: string

text \<open>Modelled from the spec: the Post Store, one table with an auto-increment id; missing from the sources.\<close>

record post_store =
  store_rows :: "post_record list"
  next_id :: nat

text \<open>Modelled from the spec: an external source record handed to the Importer; missing from the sources.\<close>

record source_record =
  src_title :: string
  src_date :: string
  src_caption :: string
  src_city :: "string option"
  src_country :: "string option"
  src_continent :: "string option"

text \<open>
  Modelled from the spec: \<^verbatim>\<open>insert(record)\<close> of the Post Store (section 4.1),
  missing from the sources. It "fails (no-op, returns existing id) if hash
  already present"; otherwise the record is stored under a fresh id. The result
  is the store, the id and whether a row was added.
\<close>

definition store_insert :: "post_store \<Rightarrow> post_record \<Rightarrow> post_store \<times> nat \<times> bool" where
  "store_insert st r =
     (case find (\<lambda>q. rec_hash q = rec_hash r) (store_rows st) of
        Some q \<Rightarrow> (st, rec_id q, False)
      | None \<Rightarrow>
          (st\<lparr>store_rows := store_rows st @ [r\<lparr>rec_id := next_id st\<rparr>], next_id := next_id st + 1\<rparr>,
           next_id st, True))"

text \<open>
  Modelled from the spec: the Importer's normalisation (section 4.2), missing
  from the sources: "defaulting missing city/country/continent to a sentinel
  Unknown", and the dedup hash "derived deterministically from normalized post
  content (title/date/caption)". The hash function itself is a parameter.
\<close>

definition normalize_record :: "(string \<times> string \<times> string \<Rightarrow> string) \<Rightarrow> source_record \<Rightarrow> post_record" where
  "normalize_record h x =
     \<lparr>rec_id = 0,
      rec_hash = h (src_title x, src_date x, src_caption x),
      rec_title = src_title x,
      rec_date = src_date x,
      rec_notes = src_caption x,
      rec_city = (case src_city x of None \<Rightarrow> ''Unknown'' | Some c \<Rightarrow> c),
      rec_country = (case src_country x of None \<Rightarrow> ''Unknown'' | Some c \<Rightarrow> c),
      rec_continent = (case src_continent x of None \<Rightarrow> ''Unknown'' | Some c \<Rightarrow> c)\<rparr>"

text \<open>
  Modelled from the spec: the counts that the Importer tracks (section 4.2,
  "track counts of inserted vs. skipped-duplicate"), together with the store;
  missing from the sources.
\<close>

record import_result =
  res_store :: post_store
  inserted :: nat
  skipped :: nat

text \<open>
  Modelled from the spec: what the Importer does for one source record (section
  4.2), missing from the sources: "normalize fields, compute the dedup hash,
  attempt Post Store insert, track counts".
\<close>

definition import_one :: "(string \<times> string \<times> string \<Rightarrow> string) \<Rightarrow> import_result \<Rightarrow> source_record
    \<Rightarrow> import_result" where
  "import_one h r x =
     (case store_insert (res_store r) (normalize_record h x) of
        (st, i, added) \<Rightarrow>
          if added then r\<lparr>res_store := st, inserted := inserted r + 1\<rparr>
          else r\<lparr>res_store := st, skipped := skipped r + 1\<rparr>)"

text \<open>
  Modelled from the spec: the Importer run on a batch of source records
  (section 4.2, "given a batch of external source records, for each: ..."),
  missing from the sources.
\<close>

definition import_batch :: "(string \<times> string \<times> string \<Rightarrow> string) \<Rightarrow> post_store \<Rightarrow> source_record list
    \<Rightarrow> import_result" where
  "import_batch h st batch = foldl (import_one h) \<lparr>res_store = st, inserted = 0, skipped = 0\<rparr> batch"

section \<open>Vocabulary of the statements\<close>

text \<open>
  The definitions of this section are not part of the program. They name what
  the program is expected to compute, so that the theorems can say it.
\<close>

subsection \<open>Requests and rounds\<close>

text \<open>The image request that \<^verbatim>\<open>prefetchTile\<close> builds for a tile at a given time.\<close>

definition mk_request :: "nat \<Rightarrow> tile \<Rightarrow> image_request" where
  "mk_request t0 tle =
     \<lparr>req_time = t0, req_tile = tle, src = tile_url (tile_x tle) (tile_y tle) (tile_z tle),
      crossOrigin = ''anonymous''\<rparr>"

text \<open>Rounds of requests, one round every 50 ms.\<close>

fun timed_rounds :: "nat \<Rightarrow> tile list list \<Rightarrow> image_request list" where
  "timed_rounds t [] = []"
| "timed_rounds t (r # rs) = map (mk_request t) r @ timed_rounds (t + 50) rs"

text \<open>
  A pending callback: whether it will request a tile when it fires, the request
  it will issue, the callback it will register, and the tiles it has left.
\<close>

fun fires :: "nat \<times> timer_callback \<Rightarrow> bool" where
  "fires (due, PrefetchNext ts i) = (i < length ts)"

fun request_of :: "nat \<Rightarrow> nat \<times> timer_callback \<Rightarrow> image_request" where
  "request_of t (due, PrefetchNext ts i) = mk_request t (ts ! i)"

fun advance :: "nat \<Rightarrow> nat \<times> timer_callback \<Rightarrow> nat \<times> timer_callback" where
  "advance t (due, PrefetchNext ts i) = (t, PrefetchNext ts (Suc i))"

fun left_of :: "nat \<times> timer_callback \<Rightarrow> tile list" where
  "left_of (due, PrefetchNext ts i) = drop i ts"

text \<open>
  The batches that one dictionary gives rise to, in the order in which
  \<^verbatim>\<open>prefetchBoundsAtZoom\<close> is called for them: for every group with more
  than \<open>least\<close> members, in \<^verbatim>\<open>Object.entries\<close> order, the padded box at the
  lower and then at the higher zoom level.
\<close>

definition group_batches :: "real \<Rightarrow> nat \<Rightarrow> nat \<Rightarrow> nat \<Rightarrow> groups \<Rightarrow> (LatLngBounds \<times> nat) list" where
  "group_batches ratio z1 z2 least gs =
     concat (map (\<lambda>e. if length (snd e) > least
                       then (case latLngBounds (snd e) of
                               None \<Rightarrow> []
                             | Some bounds \<Rightarrow> [(pad bounds ratio, z1), (pad bounds ratio, z2)])
                       else []) (Object_entries gs))"

text \<open>All batches of a pass: continents, then countries, then cities.\<close>

definition pass_batches :: "grouping \<Rightarrow> (LatLngBounds \<times> nat) list" where
  "pass_batches g =
     group_batches 0.15 4 6 0 (regions g) @ group_batches 0.2 8 10 0 (countries g)
     @ group_batches 0.3 12 14 1 (cities g)"

text \<open>Calling \<^verbatim>\<open>prefetchBoundsAtZoom\<close> for a list of batches, one after the other.\<close>

definition start_batches :: "(LatLngBounds \<times> nat) list \<Rightarrow> browser \<Rightarrow> browser" where
  "start_batches bs s = foldl (\<lambda>s bz. prefetchBoundsAtZoom (fst bz) (snd bz) s) s bs"

text \<open>The tiles of every batch: at most 20 each.\<close>

definition batch_rows :: "(LatLngBounds \<times> nat) list \<Rightarrow> tile list list" where
  "batch_rows bs = map (\<lambda>bz. tilesToFetch (fst bz) (snd bz)) bs"

text \<open>Round \<open>k\<close>: the tile number \<open>k\<close> of every batch that has one, in batch order.\<close>

definition round_tiles :: "tile list list \<Rightarrow> nat \<Rightarrow> tile list" where
  "round_tiles rows k = map (\<lambda>row. row ! k) (filter (\<lambda>row. k < length row) rows)"

text \<open>
  For a pass with a single group: every request at the lower zoom level comes
  before every request at the higher zoom level.
\<close>

definition zoom_ascending :: "image_request list \<Rightarrow> bool" where
  "zoom_ascending rs = sorted (map (\<lambda>r. tile_z (req_tile r)) rs)"

text \<open>An event that reports a failed image.\<close>

definition is_failure :: "event \<Rightarrow> bool" where
  "is_failure e = (case e of ImageFailed img \<Rightarrow> True | _ \<Rightarrow> False)"

subsection \<open>Groups\<close>

text \<open>A post takes part in the marker loop and in the grouping when both coordinates are truthy.\<close>

definition usable :: "post \<Rightarrow> bool" where
  "usable p \<longleftrightarrow> truthy (latitude p) \<and> truthy (longitude p)"

definition coord_of :: "post \<Rightarrow> real \<times> real" where
  "coord_of p = (the_number (latitude p), the_number (longitude p))"

text \<open>The key under which a post is filed in \<^verbatim>\<open>regions\<close>.\<close>

definition continent_key :: "post \<Rightarrow> string option" where
  "continent_key p = map_option (\<lambda>c. replace_spaces (toLowerCase c)) (continent p)"

text \<open>The coordinates, in input order, of the usable posts whose key is \<open>k\<close>.\<close>

definition members :: "(post \<Rightarrow> string option) \<Rightarrow> string \<Rightarrow> post list \<Rightarrow> (real \<times> real) list" where
  "members key k posts = map coord_of (filter (\<lambda>p. usable p \<and> key p = Some k) posts)"

text \<open>
  What is expected of a dictionary: one group for every key that is not empty,
  is not the placeholder and has a member.
\<close>

definition expected_group :: "(post \<Rightarrow> string option) \<Rightarrow> string \<Rightarrow> post list \<Rightarrow> string
    \<Rightarrow> (real \<times> real) list option" where
  "expected_group key placeholder posts k =
     (if k = [] \<or> k = placeholder \<or> members key k posts = [] then None
      else Some (members key k posts))"

text \<open>The key under which the loop body files a post in a dictionary, if it files it at all.\<close>

definition filed_under :: "(post \<Rightarrow> string option) \<Rightarrow> string \<Rightarrow> post \<Rightarrow> string option" where
  "filed_under key placeholder p =
     (if usable p then (case key p of
                          None \<Rightarrow> None
                        | Some k \<Rightarrow> if k \<noteq> [] \<and> k \<noteq> placeholder then Some k else None)
      else None)"

text \<open>One dictionary before and after the loop body has run for one post.\<close>

definition step_ok :: "groups \<Rightarrow> string option \<Rightarrow> real \<times> real \<Rightarrow> groups \<Rightarrow> bool" where
  "step_ok obj f c obj' = (case f of None \<Rightarrow> obj' = obj | Some k \<Rightarrow> push_coord obj k c = Inr obj')"

subsection \<open>Post Store\<close>

text \<open>The dedup hashes present in the store.\<close>

definition hashes :: "post_store \<Rightarrow> string set" where
  "hashes st = rec_hash ` set (store_rows st)"

section \<open>Example inputs\<close>

text \<open>A page whose tile layer is set, at time 0, with nothing pending.\<close>

definition fresh :: browser where
  "fresh = \<lparr>mainTileLayer = True, now = 0, timers = [], requests = [], resolved = 0\<rparr>"

text \<open>Two posts on the 45th parallel, filed under one continent only.\<close>

definition europe_posts :: "post list" where
  "europe_posts =
     [\<lparr>title = ''Milano'', url = ''/coffee/milano/'', latitude = JNumber 45, longitude = JNumber 4,
       continent = Some ''Europe'', country = None, city = None\<rparr>,
      \<lparr>title = ''Crimea'', url = ''/coffee/crimea/'', latitude = JNumber 45, longitude = JNumber 44,
       continent = Some ''Europe'', country = None, city = None\<rparr>]"

text \<open>The padded box of these two posts, and a box on the equator.\<close>

definition wide_bounds :: LatLngBounds where
  "wide_bounds = \<lparr>southWest = \<lparr>lat = 45, lng = -2\<rparr>, northEast = \<lparr>lat = 45, lng = 50\<rparr>\<rparr>"




text \<open>Posts of a small tour, one of them unlocated and one of them on the equator.\<close>

definition lisbon1 :: post where
  "lisbon1 = \<lparr>title = ''Fabrica'', url = ''/coffee/fabrica/'', latitude = JNumber 38.71,
     longitude = JNumber (- 9.14), continent = Some ''Europe'', country = Some ''Portugal'',
     city = Some ''Lisbon''\<rparr>"

definition lisbon2 :: post where
  "lisbon2 = \<lparr>title = ''Copenhagen Coffee Lab'', url = ''/coffee/ccl/'', latitude = JNumber 38.72,
     longitude = JNumber (- 9.15), continent = Some ''Europe'', country = Some ''Portugal'',
     city = Some ''Lisbon''\<rparr>"

definition porto :: post where
  "porto = \<lparr>title = ''Combi'', url = ''/coffee/combi/'', latitude = JNumber 41.15,
     longitude = JNumber (- 8.61), continent = Some ''Europe'', country = Some ''Portugal'',
     city = Some ''Porto''\<rparr>"

definition nowhere :: post where
  "nowhere = \<lparr>title = ''Airport'', url = ''/coffee/airport/'', latitude = JNumber 10,
     longitude = JNumber 10, continent = Some ''Unknown'', country = Some ''Unknown'',
     city = Some ''Unknown''\<rparr>"

definition equator :: post where
  "equator = \<lparr>title = ''Mitad del Mundo'', url = ''/coffee/mitad/'', latitude = JNumber 0,
     longitude = JNumber (- 78.45), continent = Some ''South America'', country = Some ''Ecuador'',
     city = Some ''Quito''\<rparr>"

definition portugal_groups :: grouping where
  "portugal_groups =
     \<lparr>regions = [(''europe'', [(38.71, - 9.14), (38.72, - 9.15), (41.15, - 8.61)])],
      countries = [(''Portugal'', [(38.71, - 9.14), (38.72, - 9.15), (41.15, - 8.61)])],
      cities = [(''Lisbon'', [(38.71, - 9.14), (38.72, - 9.15)]), (''Porto'', [(41.15, - 8.61)])]\<rparr>"

text \<open>A request whose image fails to load.\<close>

definition failed_image :: image_request where
  "failed_image = mk_request 0 \<lparr>tile_x = Num 7, tile_y = Num 5, tile_z = 4\<rparr>"

text \<open>A dedup hash, a batch with one record twice, and an empty store.\<close>

definition sample_hash :: "string \<times> string \<times> string \<Rightarrow> string" where
  "sample_hash c = fst c @ ''|'' @ fst (snd c) @ ''|'' @ snd (snd c)"

definition sample_batch :: "source_record list" where
  "sample_batch =
     [\<lparr>src_title = ''Flat white'', src_date = ''2024-05-01'', src_caption = ''Great crema'',
       src_city = Some ''Lisbon'', src_country = Some ''Portugal'', src_continent = Some ''Europe''\<rparr>,
      \<lparr>src_title = ''Pour over'', src_date = ''2024-06-11'', src_caption = ''Bright and clean'',
       src_city = None, src_country = None, src_continent = None\<rparr>,
      \<lparr>src_title = ''Flat white'', src_date = ''2024-05-01'', src_caption = ''Great crema'',
       src_city = Some ''Lisbon'', src_country = Some ''Portugal'', src_continent = Some ''Europe''\<rparr>]"

definition empty_store :: post_store where
  "empty_store = \<lparr>store_rows = [], next_id = 1\<rparr>"

text \<open>
  Two posts of one group on either side of the date line, 60 degrees north and
  40 degrees south. Leaflet does not wrap longitudes, so the box spans 347
  degrees and its padded western edge lies at 229.05 degrees west.
\<close>

definition dateline_posts :: "post list" where
  "dateline_posts =
     [\<lparr>title = ''Harbour'', url = ''/coffee/harbour/'', latitude = JNumber 60,
       longitude = JNumber (- 177), continent = Some ''Pacific'', country = None, city = None\<rparr>,
      \<lparr>title = ''Ferry'', url = ''/coffee/ferry/'', latitude = JNumber (- 40),
       longitude = JNumber 170, continent = Some ''Pacific'', country = None, city = None\<rparr>]"

definition dateline_bounds :: LatLngBounds where
  "dateline_bounds =
     \<lparr>southWest = \<lparr>lat = - 55, lng = - 4581 / 20\<rparr>, northEast = \<lparr>lat = 75, lng = 4441 / 20\<rparr>\<rparr>"

section \<open>Auxiliary facts\<close>

subsection \<open>The Mercator formula\<close>

lemma mercator_defined_iff: "mercator_defined la \<longleftrightarrow> 0 < cos (la * pi / 180)"
proof -
  define p where "p = la * pi / 180"
  show ?thesis unfolding mercator_defined_def p_def[symmetric]
  proof (cases "cos p = 0")
    case True
    then show "0 < tan p + 1 / cos p \<longleftrightarrow> 0 < cos p" by (simp add: tan_def)
  next
    case False
    have s: "sin p \<noteq> -1"
    proof
      assume "sin p = -1"
      with sin_cos_squared_add[of p] have "(cos p)\<^sup>2 = 0" by simp
      with False show False by simp
    qed
    have "-1 \<le> sin p" by simp
    with s have s1: "0 < 1 + sin p" by linarith
    have e: "tan p + 1 / cos p = (1 + sin p) / cos p"
      by (simp add: tan_def add_divide_distrib)
    show "0 < tan p + 1 / cos p \<longleftrightarrow> 0 < cos p"
      unfolding e using s1 by (simp add: zero_less_divide_iff)
  qed
qed

lemma mercator_defined_range: "-90 < la \<Longrightarrow> la < 90 \<Longrightarrow> mercator_defined la"
proof -
  assume a: "-90 < la" "la < 90"
  have "la * pi < 90 * pi" "(-90) * pi < la * pi"
    using a by (simp_all only: mult_strict_right_mono pi_gt_zero)
  then have "-(pi/2) < la * pi / 180" "la * pi / 180 < pi/2" by simp_all
  then show ?thesis unfolding mercator_defined_iff by (rule cos_gt_zero_pi)
qed


lemma m45: "mercator_defined 45" by (rule mercator_defined_range) simp_all

lemma point_y_defined:
  "mercator_defined la \<Longrightarrow>
   Math_floor (map_option (\<lambda>l. (1 - l / pi) / 2 * Math_pow 2 zoom)
      (Math_log (tan (la * pi / 180) + 1 / cos (la * pi / 180)))) = Num (slippy_y la zoom)"
  by (simp add: mercator_defined_def Math_log_def Math_pow_def slippy_y_def)


lemma getTileBounds_Num:
  assumes "mercator_defined (lat (southWest b))" "mercator_defined (lat (northEast b))"
  shows "getTileBounds b zoom =
    \<lparr>tb_min = \<lparr>pt_x = Num (min (slippy_x (lng (southWest b)) zoom) (slippy_x (lng (northEast b)) zoom)),
               pt_y = Num (min (slippy_y (lat (southWest b)) zoom) (slippy_y (lat (northEast b)) zoom))\<rparr>,
     tb_max = \<lparr>pt_x = Num (max (slippy_x (lng (southWest b)) zoom) (slippy_x (lng (northEast b)) zoom)),
               pt_y = Num (max (slippy_y (lat (southWest b)) zoom) (slippy_y (lat (northEast b)) zoom))\<rparr>\<rparr>"
  unfolding getTileBounds_def getSouthWest_def getNorthEast_def Let_def
    point_y_defined[OF assms(1)] point_y_defined[OF assms(2)]
  by (simp add: slippy_x_def Math_pow_def)


subsection \<open>Numerical bounds\<close>

lemma sin_lower_cubic:
  fixes x :: real
  assumes "0 < x"
  shows "x - x ^ 3 / 6 \<le> sin x"
proof -
  from Maclaurin_sin_expansion3[of 3 x] assms
  obtain t where t: "sin x = (\<Sum>m<3. sin_coeff m * x ^ m) + (sin (t + 1/2 * real 3 * pi) / fact 3) * x ^ 3"
    by auto
  have s: "(\<Sum>m<3. sin_coeff m * x ^ m) = x"
    by (simp add: eval_nat_numeral sin_coeff_def)
  have "1/2 * real 3 * pi = 3/2 * pi" by simp
  then have "sin (t + 1/2 * real 3 * pi) = sin (t + 3/2 * pi)" by (simp only:)
  also have "\<dots> = - cos t"
    unfolding sin_add cos_3over2_pi sin_3over2_pi by simp
  finally have "sin (t + 1/2 * real 3 * pi) = - cos t" .
  then have e: "sin x = x - cos t * x ^ 3 / 6"
    using t s by (simp add: eval_nat_numeral)
  have "cos t * x ^ 3 \<le> 1 * x ^ 3"
    using assms by (intro mult_right_mono) simp_all
  then show ?thesis unfolding e by simp
qed

lemma pi_ge_3: "3 \<le> pi"
proof -
  have "sin (pi / 6) \<le> pi / 6" by (rule sin_x_le_x) simp
  then show ?thesis by (simp add: sin_30)
qed

lemma pi_le_16_5: "pi \<le> 16 / 5"
proof -
  define u where "u = pi / 6"
  have u0: "0 < u" by (simp add: u_def)
  have u1: "u \<le> 2 / 3" using pi_less_4 by (simp add: u_def)
  have h: "u - u ^ 3 / 6 \<le> 1 / 2"
    using sin_lower_cubic[OF u0] by (simp add: u_def sin_30)
  have c: "u ^ 3 = u * (u * u)" by (simp add: power3_eq_cube)
  have "u * u \<le> (2/3) * (2/3)" using u0 u1 by (intro mult_mono) simp_all
  then have "u * (u * u) \<le> u * (4 / 9)" using u0 by (intro mult_left_mono) simp_all
  then have u2: "u \<le> 27 / 50" using h c by simp
  have "u * u \<le> (27/50) * (27/50)" using u0 u2 by (intro mult_mono) simp_all
  then have "u * (u * u) \<le> u * (729 / 2500)" using u0 by (intro mult_left_mono) simp_all
  then have "u \<le> 8 / 15" using h c by simp
  then show ?thesis by (simp add: u_def)
qed

lemma sqrt2_bounds: "14142 / 10000 \<le> sqrt 2" "sqrt 2 \<le> 14143 / 10000"
  by (rule real_le_rsqrt, simp add: power2_eq_square) (rule real_le_lsqrt, simp_all add: power2_eq_square)

lemma sqrt3_bounds: "17320 / 10000 \<le> sqrt 3" "sqrt 3 \<le> 17321 / 10000"
  by (rule real_le_rsqrt, simp add: power2_eq_square) (rule real_le_lsqrt, simp_all add: power2_eq_square)

lemma angle_75: "75 * pi / 180 = pi / 4 + pi / (6::real)"
  by simp

lemma sin_75: "sin (75 * pi / 180) = sqrt 2 * (sqrt 3 + 1) / 4"
  unfolding angle_75 sin_add by (simp add: sin_45 cos_45 sin_30 cos_30 field_simps)

lemma cos_75: "cos (75 * pi / 180) = sqrt 2 * (sqrt 3 - 1) / 4"
  unfolding angle_75 cos_add by (simp add: sin_45 cos_45 sin_30 cos_30 field_simps)

lemma quarter_ratio: "(a / 4 + 1) / (b / 4) = (4 + a) / (b::real)"
  by (cases "b = 0") (simp_all add: field_simps)

lemma mercator_75:
  "tan (75 * pi / 180) + 1 / cos (75 * pi / 180) = (4 + sqrt 2 * (sqrt 3 + 1)) / (sqrt 2 * (sqrt 3 - 1))"
proof -
  have "tan (75 * pi / 180) + 1 / cos (75 * pi / 180) = (sin (75 * pi / 180) + 1) / cos (75 * pi / 180)"
    by (simp only: tan_def add_divide_distrib)
  also have "\<dots> = (sqrt 2 * (sqrt 3 + 1) / 4 + 1) / (sqrt 2 * (sqrt 3 - 1) / 4)"
    by (simp only: sin_75 cos_75)
  also have "\<dots> = (4 + sqrt 2 * (sqrt 3 + 1)) / (sqrt 2 * (sqrt 3 - 1))"
    by (rule quarter_ratio)
  finally show ?thesis .
qed

lemma mercator_75_bounds:
  "759 / 100 < tan (75 * pi / 180) + 1 / cos (75 * pi / 180)"
  "tan (75 * pi / 180) + 1 / cos (75 * pi / 180) \<le> 76 / 10"
proof -
  let ?a = "sqrt 2" and ?b = "sqrt 3"
  note a = sqrt2_bounds and b = sqrt3_bounds
  have n1: "(14142 / 10000) * (27320 / 10000) \<le> ?a * (?b + 1)"
    using a b by (intro mult_mono) simp_all
  have n2: "?a * (?b + 1) \<le> (14143 / 10000) * (27321 / 10000)"
    using a b by (intro mult_mono) simp_all
  have d1: "(14142 / 10000) * (7320 / 10000) \<le> ?a * (?b - 1)"
    using a b by (intro mult_mono) simp_all
  have d2: "?a * (?b - 1) \<le> (14143 / 10000) * (7321 / 10000)"
    using a b by (intro mult_mono) simp_all
  have dpos: "0 < ?a * (?b - 1)" using d1 by simp
  have "759 / 100 * (?a * (?b - 1)) < 4 + ?a * (?b + 1)" using n1 d2 by simp
  then show "759 / 100 < tan (75 * pi / 180) + 1 / cos (75 * pi / 180)"
    unfolding mercator_75 using dpos by (simp add: pos_less_divide_eq)
  have "4 + ?a * (?b + 1) \<le> 76 / 10 * (?a * (?b - 1))" using n2 d1 by simp
  then show "tan (75 * pi / 180) + 1 / cos (75 * pi / 180) \<le> 76 / 10"
    unfolding mercator_75 using dpos by (simp add: pos_divide_le_eq)
qed

lemma sq_step: "0 \<le> a \<Longrightarrow> a \<le> b \<Longrightarrow> b\<^sup>2 \<le> c \<Longrightarrow> a\<^sup>2 \<le> (c::real)"
  by (meson order_trans power_mono)

lemma exp_2_upper: "exp (2::real) < 759 / 100"
proof -
  define e where "e = exp (1 / 64 :: real)"
  have e0: "0 \<le> e" by (simp add: e_def)
  have "e \<le> 1 + 1 / 64 + (1 / 64)\<^sup>2" unfolding e_def by (rule exp_bound) simp_all
  then have s0: "e \<le> 10159 / 10000" by (simp add: power2_eq_square)
  have s1: "e\<^sup>2 \<le> 10321 / 10000"
    by (rule sq_step[OF e0 s0]) (simp add: power2_eq_square)
  have s2: "(e\<^sup>2)\<^sup>2 \<le> 10653 / 10000"
    by (rule sq_step[OF _ s1]) (simp_all add: power2_eq_square)
  have s3: "((e\<^sup>2)\<^sup>2)\<^sup>2 \<le> 11349 / 10000"
    by (rule sq_step[OF _ s2]) (simp_all add: power2_eq_square)
  have s4: "(((e\<^sup>2)\<^sup>2)\<^sup>2)\<^sup>2 \<le> 12881 / 10000"
    by (rule sq_step[OF _ s3]) (simp_all add: power2_eq_square)
  have s5: "((((e\<^sup>2)\<^sup>2)\<^sup>2)\<^sup>2)\<^sup>2 \<le> 16593 / 10000"
    by (rule sq_step[OF _ s4]) (simp_all add: power2_eq_square)
  have s6: "(((((e\<^sup>2)\<^sup>2)\<^sup>2)\<^sup>2)\<^sup>2)\<^sup>2 \<le> 27533 / 10000"
    by (rule sq_step[OF _ s5]) (simp_all add: power2_eq_square)
  have s7: "((((((e\<^sup>2)\<^sup>2)\<^sup>2)\<^sup>2)\<^sup>2)\<^sup>2)\<^sup>2 \<le> 7581 / 1000"
    by (rule sq_step[OF _ s6]) (simp_all add: power2_eq_square)
  have "((((((e\<^sup>2)\<^sup>2)\<^sup>2)\<^sup>2)\<^sup>2)\<^sup>2)\<^sup>2 = e ^ 128"
    by (simp only: power_mult[symmetric]) simp
  also have "e ^ 128 = exp 2"
    unfolding e_def using exp_of_nat_mult[of 128 "1 / 64 :: real"] by simp
  finally show ?thesis using s7 by simp
qed

lemma exp_9_4_lower: "76 / 10 \<le> exp (9 / 4 :: real)"
proof -
  have "1 + 9 / 64 \<le> exp (9 / 64 :: real)" by (rule exp_ge_add_one_self)
  then have "(1 + 9 / 64) ^ 16 \<le> exp (9 / 64 :: real) ^ 16"
    by (intro power_mono) simp_all
  moreover have "exp (9 / 64 :: real) ^ 16 = exp (9 / 4)"
    using exp_of_nat_mult[of 16 "9 / 64 :: real"] by simp
  moreover have "(76 / 10 :: real) \<le> (1 + 9 / 64) ^ 16" by (simp add: power_divide)
  ultimately show ?thesis by linarith
qed

lemma mercator_log_75:
  "2 < ln (tan (75 * pi / 180) + 1 / cos (75 * pi / 180))"
  "ln (tan (75 * pi / 180) + 1 / cos (75 * pi / 180)) \<le> 9 / 4"
proof -
  let ?T = "tan (75 * pi / 180) + 1 / cos (75 * pi / 180)"
  have pos: "0 < ?T" using mercator_75_bounds(1) by simp
  have "exp 2 < ?T" using exp_2_upper mercator_75_bounds(1) by linarith
  then have "ln (exp 2) < ln ?T" using pos by (simp del: ln_exp)
  then show "2 < ln ?T" by simp
  have "?T \<le> exp (9 / 4)" using exp_9_4_lower mercator_75_bounds(2) by linarith
  then have "ln ?T \<le> ln (exp (9 / 4))" using pos by (simp del: ln_exp)
  then show "ln ?T \<le> 9 / 4" by simp
qed

lemma slippy_y_75: "slippy_y 75 4 = 2"
proof -
  define m where "m = ln (tan (75 * pi / 180) + 1 / cos (75 * pi / 180))"
  define q where "q = m / pi"
  have m: "2 < m" "m \<le> 9 / 4" unfolding m_def by (rule mercator_log_75)+
  have p: "0 < pi" by simp
  have "m \<le> 3 / 4 * pi" using m(2) pi_ge_3 by linarith
  then have a: "q \<le> 3 / 4" unfolding q_def using p by (simp add: pos_divide_le_eq)
  have "5 / 8 * pi < m" using m(1) pi_le_16_5 by linarith
  then have b: "5 / 8 < q" unfolding q_def using p by (simp add: pos_less_divide_eq)
  have lo: "of_int 2 \<le> (1 - q) / 2 * 2 ^ 4" using a by simp
  have hi: "(1 - q) / 2 * 2 ^ 4 < of_int 2 + 1" using b by simp
  have "\<lfloor>(1 - q) / 2 * 2 ^ 4\<rfloor> = 2" using lo hi by (rule floor_unique)
  then show ?thesis unfolding slippy_y_def m_def q_def .
qed

lemma mercator_south:
  assumes "- 90 < la" "la \<le> 0"
  shows "tan (la * pi / 180) + 1 / cos (la * pi / 180) \<le> 1"
    and "0 < tan (la * pi / 180) + 1 / cos (la * pi / 180)"
proof -
  define p where "p = la * pi / 180"
  have "mercator_defined la" using assms by (intro mercator_defined_range) simp_all
  then show "0 < tan (la * pi / 180) + 1 / cos (la * pi / 180)" by (simp add: mercator_defined_def)
  have "(- 90) * pi < la * pi" using assms(1) by (intro mult_strict_right_mono) simp_all
  moreover have "la * pi \<le> 0 * pi" using assms(2) by (intro mult_right_mono) simp_all
  ultimately have r: "- (pi / 2) < p" "p \<le> 0" by (simp_all add: p_def)
  have c: "0 < cos p" using r by (intro cos_gt_zero_pi) simp_all
  have "0 \<le> sin (- p)" using r by (intro sin_ge_zero) simp_all
  then have s: "sin p \<le> 0" by simp
  have s1: "0 \<le> 1 + sin p" using sin_ge_minus_one[of p] by linarith
  have "(1 + sin p) * (1 + sin p) \<le> (1 - sin p) * (1 + sin p)"
    using s s1 by (intro mult_right_mono) simp_all
  also have "\<dots> = cos p * cos p"
    using sin_cos_squared_add[of p] by (simp add: algebra_simps power2_eq_square)
  finally have q: "(1 + sin p)\<^sup>2 \<le> (cos p)\<^sup>2" by (simp add: power2_eq_square)
  have "1 + sin p \<le> cos p"
    using q c s1 by (simp add: power2_le_iff_abs_le abs_if split: if_splits)
  then have "(sin p + 1) / cos p \<le> 1" using c by (simp add: pos_divide_le_eq)
  moreover have "tan p + 1 / cos p = (sin p + 1) / cos p"
    by (simp only: tan_def add_divide_distrib)
  ultimately show "tan (la * pi / 180) + 1 / cos (la * pi / 180) \<le> 1"
    unfolding p_def by simp
qed

lemma slippy_y_south:
  assumes "- 90 < la" "la \<le> 0"
  shows "2 ^ n \<le> slippy_y la (Suc n)"
proof -
  define m where "m = ln (tan (la * pi / 180) + 1 / cos (la * pi / 180))"
  have "m \<le> ln 1" unfolding m_def
    using mercator_south[OF assms] by (subst ln_le_cancel_iff) simp_all
  then have "m \<le> 0" by simp
  then have "m / pi \<le> 0" by (simp add: divide_le_0_iff)
  then have "1 \<le> 1 - m / pi" by simp
  then have "1 * (2 ^ Suc n / 2) \<le> (1 - m / pi) * (2 ^ Suc n / 2)"
    by (intro mult_right_mono) simp_all
  then have "of_int (2 ^ n) \<le> (1 - m / pi) / 2 * 2 ^ Suc n" by simp
  then show ?thesis unfolding slippy_y_def m_def by (simp only: le_floor_iff)
qed

subsection \<open>The tile loops\<close>


lemma for_y_Num:
  "for_y (Num c) (Num d) x zoom acc =
     acc @ map (\<lambda>j. \<lparr>tile_x = x, tile_y = Num j, tile_z = zoom\<rparr>) [c..d]"
proof (induction "nat (d - c + 1)" arbitrary: c acc)
  case 0
  then have "d < c" by simp
  then show ?case by (simp add: for_y.simps)
next
  case (Suc n)
  then have le: "c \<le> d" and n: "n = nat (d - (c + 1) + 1)" by simp_all
  have "for_y (Num c) (Num d) x zoom acc =
        for_y (Num (c + 1)) (Num d) x zoom (acc @ [\<lparr>tile_x = x, tile_y = Num c, tile_z = zoom\<rparr>])"
    using le by (subst for_y.simps) simp
  also have "\<dots> = (acc @ [\<lparr>tile_x = x, tile_y = Num c, tile_z = zoom\<rparr>])
        @ map (\<lambda>j. \<lparr>tile_x = x, tile_y = Num j, tile_z = zoom\<rparr>) [c + 1..d]"
    by (rule Suc.hyps(1)[OF n])
  also have "\<dots> = acc @ map (\<lambda>j. \<lparr>tile_x = x, tile_y = Num j, tile_z = zoom\<rparr>) [c..d]"
    using le by (simp add: upto_rec1)
  finally show ?case .
qed


lemma for_x_Num:
  assumes "pt_x (tb_max tb) = Num b" "pt_y (tb_min tb) = Num c" "pt_y (tb_max tb) = Num d"
  shows "for_x (Num a) tb zoom acc =
     acc @ concat (map (\<lambda>i. map (\<lambda>j. \<lparr>tile_x = Num i, tile_y = Num j, tile_z = zoom\<rparr>) [c..d]) [a..b])"
proof (induction "nat (b - a + 1)" arbitrary: a acc)
  case 0
  then have "b < a" by simp
  then show ?case using assms by (simp add: for_x.simps)
next
  case (Suc n)
  then have le: "a \<le> b" and n: "n = nat (b - (a + 1) + 1)" by simp_all
  have "for_x (Num a) tb zoom acc =
        for_x (Num (a + 1)) tb zoom (for_y (Num c) (Num d) (Num a) zoom acc)"
    using le assms by (subst for_x.simps) simp
  also have "\<dots> = for_y (Num c) (Num d) (Num a) zoom acc
        @ concat (map (\<lambda>i. map (\<lambda>j. \<lparr>tile_x = Num i, tile_y = Num j, tile_z = zoom\<rparr>) [c..d]) [a + 1..b])"
    by (rule Suc.hyps(1)[OF n])
  also have "\<dots> = acc @ concat (map (\<lambda>i. map (\<lambda>j. \<lparr>tile_x = Num i, tile_y = Num j, tile_z = zoom\<rparr>) [c..d]) [a..b])"
    using le by (simp add: for_y_Num upto_rec1[of a b])
  finally show ?case .
qed


lemma for_x_rect:
  "for_x (Num a) \<lparr>tb_min = \<lparr>pt_x = mx, pt_y = Num c\<rparr>, tb_max = \<lparr>pt_x = Num b, pt_y = Num d\<rparr>\<rparr> zoom acc =
     acc @ concat (map (\<lambda>i. map (\<lambda>j. \<lparr>tile_x = Num i, tile_y = Num j, tile_z = zoom\<rparr>) [c..d]) [a..b])"
  by (rule for_x_Num) simp_all


lemma length_tilesToFetch: "length (tilesToFetch bounds zoom) \<le> 20"
  by (simp add: tilesToFetch_def Let_def maxTiles_def)

lemma tilesToFetch_defined:
  assumes "mercator_defined (lat (southWest b))" "mercator_defined (lat (northEast b))"
  shows "tilesToFetch b zoom =
     take 20 (concat (map (\<lambda>i. map (\<lambda>j. \<lparr>tile_x = Num i, tile_y = Num j, tile_z = zoom\<rparr>)
          [min (slippy_y (lat (southWest b)) zoom) (slippy_y (lat (northEast b)) zoom)
           ..max (slippy_y (lat (southWest b)) zoom) (slippy_y (lat (northEast b)) zoom)])
          [min (slippy_x (lng (southWest b)) zoom) (slippy_x (lng (northEast b)) zoom)
           ..max (slippy_x (lng (southWest b)) zoom) (slippy_x (lng (northEast b)) zoom)]))"
  unfolding tilesToFetch_def Let_def getTileBounds_Num[OF assms]
  by (simp add: for_x_rect maxTiles_def)

subsection \<open>Tile URLs\<close>

lemma tile_url_nonneg:
  assumes "0 \<le> x + y"
  shows "tile_url (Num x) (Num y) z =
     ''https://'' @ subdomains ! nat ((x + y) mod 4) @ ''.basemaps.cartocdn.com/dark_all/''
       @ show_nat z @ ''/'' @ show_int x @ ''/'' @ show_int y @ ''.png''"
proof -
  have "sgn (x + y) * (\<bar>x + y\<bar> mod 4) = (x + y) mod 4"
    using assms by (cases "x + y = 0") (simp_all add: sgn_if)
  moreover have "0 \<le> (x + y) mod 4" "(x + y) mod 4 < 4" by simp_all
  ultimately show ?thesis
    by (simp add: tile_url_def Let_def subdomains_def)
qed

lemma prefetchTile_negative_sum:
  "map src (requests (prefetchTile (Num (- 3)) (Num 2) 4 fresh)) =
     [''https://undefined.basemaps.cartocdn.com/dark_all/4/-3/2.png'']"
  by (simp add: prefetchTile_def tile_url_def Let_def subdomains_def fresh_def show_int_def
      show_nat.simps digit_char_def)

subsection \<open>One timer, one round\<close>

lemma prefetchTile_request:
  "prefetchTile (tile_x t) (tile_y t) (tile_z t) s = s\<lparr>requests := requests s @ [mk_request (now s) t]\<rparr>"
  by (simp add: prefetchTile_def mk_request_def Let_def)

lemma insert_timer_last:
  "\<forall>e\<in>set q. fst e \<le> fst t \<Longrightarrow> insert_timer t q = q @ [t]"
  by (induction q) auto

lemma prefetchNext_fires:
  assumes "i < length ts" "\<forall>e\<in>set (timers s). fst e \<le> now s + 50"
  shows "prefetchNext ts i s =
     s\<lparr>requests := requests s @ [mk_request (now s) (ts ! i)],
       timers := timers s @ [(now s + 50, PrefetchNext ts (Suc i))]\<rparr>"
  using assms
  by (simp add: prefetchNext_def prefetchTile_request setTimeout_def Let_def insert_timer_last)

lemma prefetchNext_done:
  "length ts \<le> i \<Longrightarrow> prefetchNext ts i s = s\<lparr>resolved := resolved s + 1\<rparr>"
  by (simp add: prefetchNext_def)

lemma run_timers_step: "timers s = e # q \<Longrightarrow> run_timers s = run_timers (fire_timer s)"
  by (subst run_timers.simps) simp

lemma run_timers_idle: "timers s = [] \<Longrightarrow> run_timers s = s"
  by (subst run_timers.simps) simp

lemma fst_advance [simp]: "fst (advance t e) = t"
  by (cases e rule: remaining.cases) auto

lemma run_round:
  assumes "timers s = A @ R" "\<forall>e\<in>set A. fst e = d" "\<forall>e\<in>set R. fst e = d + 50" "now s \<le> d"
  shows "run_timers s =
     run_timers (s\<lparr>now := (if A = [] then now s else d),
                   timers := R @ map (advance (d + 50)) (filter fires A),
                   requests := requests s @ map (request_of d) (filter fires A),
                   resolved := resolved s + length (filter (\<lambda>e. \<not> fires e) A)\<rparr>)"
  using assms
proof (induction A arbitrary: s R)
  case Nil
  then have "R = timers s" by simp
  then show ?case by simp
next
  case (Cons e A)
  obtain due ts i where e: "e = (due, PrefetchNext ts i)"
    by (cases e) (metis timer_callback.exhaust)
  have due: "due = d" using Cons.prems(2) e by simp
  let ?s0 = "s\<lparr>now := max (now s) due, timers := A @ R\<rparr>"
  have fire: "fire_timer s = prefetchNext ts i ?s0"
    using Cons.prems(1) e by (simp add: fire_timer_def)
  have now0: "now ?s0 = d" using Cons.prems(4) due by simp
  have step: "run_timers s = run_timers (fire_timer s)"
    using Cons.prems(1) by (simp add: run_timers_step)
  show ?case
  proof (cases "i < length ts")
    case True
    have b: "\<forall>e\<in>set (timers ?s0). fst e \<le> now ?s0 + 50"
      using Cons.prems(2,3) now0 by auto
    have f: "fire_timer s = ?s0\<lparr>requests := requests s @ [mk_request d (ts ! i)],
                timers := A @ (R @ [(d + 50, PrefetchNext ts (Suc i))])\<rparr>"
      unfolding fire using prefetchNext_fires[OF True b] now0 by simp
    let ?s1 = "?s0\<lparr>requests := requests s @ [mk_request d (ts ! i)],
                timers := A @ (R @ [(d + 50, PrefetchNext ts (Suc i))])\<rparr>"
    have "run_timers ?s1 = run_timers (?s1\<lparr>now := (if A = [] then now ?s1 else d),
                   timers := (R @ [(d + 50, PrefetchNext ts (Suc i))]) @ map (advance (d + 50)) (filter fires A),
                   requests := requests ?s1 @ map (request_of d) (filter fires A),
                   resolved := resolved ?s1 + length (filter (\<lambda>e. \<not> fires e) A)\<rparr>)"
      by (rule Cons.IH) (use Cons.prems now0 in auto)
    then show ?thesis
      unfolding step f using True e due Cons.prems(4) by (simp add: max_def)
  next
    case False
    have f: "fire_timer s = ?s0\<lparr>resolved := resolved s + 1\<rparr>"
      unfolding fire using False by (simp add: prefetchNext_done)
    let ?s1 = "?s0\<lparr>resolved := resolved s + 1\<rparr>"
    have "run_timers ?s1 = run_timers (?s1\<lparr>now := (if A = [] then now ?s1 else d),
                   timers := R @ map (advance (d + 50)) (filter fires A),
                   requests := requests ?s1 @ map (request_of d) (filter fires A),
                   resolved := resolved ?s1 + length (filter (\<lambda>e. \<not> fires e) A)\<rparr>)"
      by (rule Cons.IH) (use Cons.prems now0 in auto)
    then show ?thesis
      unfolding step f using False e due Cons.prems(4) by (simp add: max_def)
  qed
qed

subsection \<open>Rounds and transposition\<close>

lemma transpose_rounds:
  "transpose xss =
     (if filter (\<lambda>xs. xs \<noteq> []) xss = [] then []
      else map hd (filter (\<lambda>xs. xs \<noteq> []) xss) # transpose (map tl (filter (\<lambda>xs. xs \<noteq> []) xss)))"
proof (induction xss)
  case Nil
  then show ?case by simp
next
  case (Cons xs xss)
  show ?case
  proof (cases xs)
    case Nil
    then show ?thesis using Cons.IH by simp
  next
    case (Cons y ys)
    then show ?thesis
      by (simp add: transpose_aux_filter_head transpose_aux_filter_tail)
  qed
qed

lemma left_of_advance:
  "map (left_of \<circ> advance t) (filter fires A) = map tl (filter (\<lambda>xs. xs \<noteq> []) (map left_of A))"
proof (induction A)
  case Nil
  then show ?case by simp
next
  case (Cons e A)
  obtain due ts i where e: "e = (due, PrefetchNext ts i)"
    by (cases e) (metis timer_callback.exhaust)
  show ?case using Cons.IH by (simp add: e drop_Suc tl_drop)
qed

lemma request_of_heads:
  "map (request_of t) (filter fires A) = map (mk_request t) (map hd (filter (\<lambda>xs. xs \<noteq> []) (map left_of A)))"
proof (induction A)
  case Nil
  then show ?case by simp
next
  case (Cons e A)
  obtain due ts i where e: "e = (due, PrefetchNext ts i)"
    by (cases e) (metis timer_callback.exhaust)
  show ?case using Cons.IH by (simp add: e hd_drop_conv_nth)
qed

lemma remaining_advance:
  "fires e \<Longrightarrow> remaining (advance t e) < remaining e"
  by (cases e rule: remaining.cases) auto

lemma pending_after_round:
  "A \<noteq> [] \<Longrightarrow> sum_list (map remaining (map (advance t) (filter fires A))) < sum_list (map remaining A)"
proof (induction A rule: list_nonempty_induct)
  case (single e)
  then show ?case using remaining_advance[of e t] by (cases e rule: remaining.cases) auto
next
  case (cons e A)
  have "0 < remaining e" by (cases e rule: remaining.cases) auto
  then show ?case using cons.IH remaining_advance[of e t] by auto
qed

lemma timed_rounds_transpose:
  "timed_rounds d (transpose rows) =
        map (mk_request d) (map hd (filter (\<lambda>xs. xs \<noteq> []) rows))
        @ timed_rounds (d + 50) (transpose (map tl (filter (\<lambda>xs. xs \<noteq> []) rows)))"
  by (subst transpose_rounds) simp

lemma run_timers_rounds:
  assumes "\<forall>e\<in>set (timers s). fst e = d" "now s \<le> d"
  shows "requests (run_timers s) = requests s @ timed_rounds d (transpose (map left_of (timers s)))
       \<and> timers (run_timers s) = []
       \<and> resolved (run_timers s) = resolved s + length (timers s)
       \<and> mainTileLayer (run_timers s) = mainTileLayer s"
  using assms
proof (induction "pending_work s" arbitrary: s d rule: less_induct)
  case less
  show ?case
  proof (cases "timers s = []")
    case True
    then show ?thesis by (simp add: run_timers_idle)
  next
    case False
    let ?A = "timers s"
    let ?s' = "s\<lparr>now := (if ?A = [] then now s else d),
                   timers := [] @ map (advance (d + 50)) (filter fires ?A),
                   requests := requests s @ map (request_of d) (filter fires ?A),
                   resolved := resolved s + length (filter (\<lambda>e. \<not> fires e) ?A)\<rparr>"
    have r: "run_timers s = run_timers ?s'"
      by (rule run_round) (use less.prems in auto)
    have dues: "\<forall>e\<in>set (timers ?s'). fst e = d + 50"
      by auto
    have lt: "pending_work ?s' < pending_work s"
      using pending_after_round[OF False] by (simp add: pending_work_def)
    have nw: "now ?s' \<le> d + 50" using False by simp
    note IH = less.hyps[OF lt dues nw]
    have len: "length (filter fires ?A) + length (filter (\<lambda>e. \<not> fires e) ?A) = length ?A"
      by (rule sum_length_filter_compl)
    define rows where "rows = map left_of ?A"
    have T: "timed_rounds d (transpose rows) =
        map (mk_request d) (map hd (filter (\<lambda>xs. xs \<noteq> []) rows))
        @ timed_rounds (d + 50) (transpose (map tl (filter (\<lambda>xs. xs \<noteq> []) rows)))"
      by (subst transpose_rounds) simp
    show ?thesis
      unfolding r using IH len T
      by (simp add: left_of_advance request_of_heads rows_def)
  qed
qed

lemma transpose_as_rounds: "transpose rows = map (round_tiles rows) [0..<length (transpose rows)]"
  by (rule nth_equalityI) (simp_all add: nth_transpose round_tiles_def)

lemma length_transpose_le:
  "\<forall>row\<in>set rows. length row \<le> n \<Longrightarrow> length (transpose rows) \<le> n"
  by (induction rows) (auto simp: length_transpose)

lemma round_tiles_beyond:
  "length (transpose rows) \<le> k \<Longrightarrow> round_tiles rows k = []"
  by (induction rows) (auto simp: round_tiles_def length_transpose)

lemma timed_rounds_map:
  "timed_rounds d (map f [a..<b]) = concat (map (\<lambda>k. map (mk_request (d + 50 * (k - a))) (f k)) [a..<b])"
proof (induction "b - a" arbitrary: a d)
  case 0
  then show ?case by simp
next
  case (Suc n)
  then have lt: "a < b" and n: "n = b - Suc a" by simp_all
  have c: "concat (map (\<lambda>k. map (mk_request (d + 50 + 50 * (k - Suc a))) (f k)) [Suc a..<b])
         = concat (map (\<lambda>k. map (mk_request (d + 50 * (k - a))) (f k)) [Suc a..<b])"
  proof (rule arg_cong[where f=concat], rule map_cong)
    fix k assume "k \<in> set [Suc a..<b]"
    then have "d + 50 + 50 * (k - Suc a) = d + 50 * (k - a)" by auto
    then show "map (mk_request (d + 50 + 50 * (k - Suc a))) (f k) = map (mk_request (d + 50 * (k - a))) (f k)"
      by (simp only:)
  qed simp
  show ?case
    using lt Suc.hyps(1)[OF n, of "d + 50"] c by (simp add: upt_conv_Cons)
qed

lemma rounds_explicit:
  assumes "\<forall>row\<in>set rows. length row \<le> n"
  shows "timed_rounds d (transpose rows) =
     concat (map (\<lambda>k. map (mk_request (d + 50 * k)) (round_tiles rows k)) [0..<n])"
proof -
  let ?m = "length (transpose rows)"
  have le: "?m \<le> n" using assms by (rule length_transpose_le)
  have "timed_rounds d (transpose rows) = timed_rounds d (map (round_tiles rows) [0..<?m])"
    using transpose_as_rounds[of rows] by simp
  also have "\<dots> = concat (map (\<lambda>k. map (mk_request (d + 50 * k)) (round_tiles rows k)) [0..<?m])"
    by (simp add: timed_rounds_map)
  also have "\<dots> = concat (map (\<lambda>k. map (mk_request (d + 50 * k)) (round_tiles rows k)) ([0..<?m] @ [?m..<n]))"
    by (simp add: round_tiles_beyond)
  also have "[0..<?m] @ [?m..<n] = [0..<n]"
    using le by (metis le0 upt_add_eq_append le_add_diff_inverse)
  finally show ?thesis .
qed

lemma req_tile_timed_rounds: "map req_tile (timed_rounds d rows) = concat rows"
  by (induction rows arbitrary: d) (simp_all add: mk_request_def comp_def)

lemma transpose_single: "transpose [ts] = map (\<lambda>t. [t]) ts"
  by (induction ts) simp_all

lemma req_tile_mk_request: "map req_tile (map (mk_request t) ts) = ts"
  by (induction ts) (simp_all add: mk_request_def)

subsection \<open>Batches\<close>

lemma start_batches_append: "start_batches (bs @ cs) s = start_batches cs (start_batches bs s)"
  by (simp add: start_batches_def)

lemma views_as_batches:
  "foldl (\<lambda>s e. if length (snd e) > least
        then (case latLngBounds (snd e) of
                None \<Rightarrow> s
              | Some bounds \<Rightarrow>
                  prefetchBoundsAtZoom (pad bounds ratio) z2
                    (prefetchBoundsAtZoom (pad bounds ratio) z1 s))
        else s) s es
   = start_batches (concat (map (\<lambda>e. if length (snd e) > least
                       then (case latLngBounds (snd e) of
                               None \<Rightarrow> []
                             | Some bounds \<Rightarrow> [(pad bounds ratio, z1), (pad bounds ratio, z2)])
                       else []) es)) s"
proof (induction es arbitrary: s)
  case Nil
  then show ?case by (simp add: start_batches_def)
next
  case (Cons e es)
  show ?case
    by (simp add: Cons.IH start_batches_append)
       (simp add: start_batches_def split: option.split)
qed

lemma continent_views_batches: "continent_views rs s = start_batches (group_batches 0.15 4 6 0 rs) s"
  unfolding continent_views_def group_batches_def by (rule views_as_batches)

lemma country_views_batches: "country_views rs s = start_batches (group_batches 0.2 8 10 0 rs) s"
  unfolding country_views_def group_batches_def by (rule views_as_batches)

lemma city_views_batches: "city_views rs s = start_batches (group_batches 0.3 12 14 1 rs) s"
  unfolding city_views_def group_batches_def by (rule views_as_batches)

lemma pass_as_batches:
  "city_views (cities g) (country_views (countries g) (continent_views (regions g) s))
   = start_batches (pass_batches g) s"
  by (simp add: pass_batches_def start_batches_append continent_views_batches
      country_views_batches city_views_batches)

lemma prefetchBoundsAtZoom_effect:
  assumes "mainTileLayer s" "\<forall>e\<in>set (timers s). fst e = now s + 50"
  shows "prefetchBoundsAtZoom b z s =
     (if tilesToFetch b z = [] then s\<lparr>resolved := resolved s + 1\<rparr>
      else s\<lparr>requests := requests s @ [mk_request (now s) (hd (tilesToFetch b z))],
             timers := timers s @ [(now s + 50, PrefetchNext (tilesToFetch b z) (Suc 0))]\<rparr>)"
proof (cases "tilesToFetch b z = []")
  case True
  then show ?thesis using assms by (simp add: prefetchBoundsAtZoom_def prefetchNext_done)
next
  case False
  then have l: "0 < length (tilesToFetch b z)" by simp
  have b: "\<forall>e\<in>set (timers s). fst e \<le> now s + 50" using assms(2) by simp
  show ?thesis
    using False assms(1) prefetchNext_fires[OF l b]
    by (simp add: prefetchBoundsAtZoom_def hd_conv_nth)
qed

lemma start_batches_effect:
  assumes "mainTileLayer s" "\<forall>e\<in>set (timers s). fst e = now s + 50"
  shows "start_batches bs s =
     s\<lparr>requests := requests s @ map (mk_request (now s)) (map hd (filter (\<lambda>xs. xs \<noteq> []) (batch_rows bs))),
       timers := timers s @ map (\<lambda>ts. (now s + 50, PrefetchNext ts (Suc 0))) (filter (\<lambda>xs. xs \<noteq> []) (batch_rows bs)),
       resolved := resolved s + length (filter (\<lambda>xs. xs = []) (batch_rows bs))\<rparr>"
  using assms
proof (induction bs arbitrary: s)
  case Nil
  then show ?case by (simp add: start_batches_def batch_rows_def)
next
  case (Cons bz bs)
  let ?s1 = "prefetchBoundsAtZoom (fst bz) (snd bz) s"
  have e: "?s1 = (if tilesToFetch (fst bz) (snd bz) = [] then s\<lparr>resolved := resolved s + 1\<rparr>
      else s\<lparr>requests := requests s @ [mk_request (now s) (hd (tilesToFetch (fst bz) (snd bz)))],
             timers := timers s @ [(now s + 50, PrefetchNext (tilesToFetch (fst bz) (snd bz)) (Suc 0))]\<rparr>)"
    by (rule prefetchBoundsAtZoom_effect) (use Cons.prems in auto)
  have m: "mainTileLayer ?s1" and n: "now ?s1 = now s"
    and d: "\<forall>e\<in>set (timers ?s1). fst e = now ?s1 + 50"
    unfolding e using Cons.prems by auto
  have "start_batches (bz # bs) s = start_batches bs ?s1" by (simp add: start_batches_def)
  also note Cons.IH[OF m d]
  finally show ?case
    unfolding n unfolding e by (simp add: batch_rows_def)
qed

lemma batches_run:
  assumes "mainTileLayer s" "timers s = []"
  shows "requests (run_timers (start_batches bs s)) = requests s @ timed_rounds (now s) (transpose (batch_rows bs))"
    and "timers (run_timers (start_batches bs s)) = []"
    and "resolved (run_timers (start_batches bs s)) = resolved s + length bs"
proof -
  let ?s1 = "start_batches bs s"
  have e: "?s1 = s\<lparr>requests := requests s @ map (mk_request (now s)) (map hd (filter (\<lambda>xs. xs \<noteq> []) (batch_rows bs))),
       timers := timers s @ map (\<lambda>ts. (now s + 50, PrefetchNext ts (Suc 0))) (filter (\<lambda>xs. xs \<noteq> []) (batch_rows bs)),
       resolved := resolved s + length (filter (\<lambda>xs. xs = []) (batch_rows bs))\<rparr>"
    by (rule start_batches_effect) (use assms in auto)
  have d: "\<forall>e\<in>set (timers ?s1). fst e = now s + 50" unfolding e using assms(2) by auto
  have n: "now ?s1 \<le> now s + 50" unfolding e by simp
  note R = run_timers_rounds[OF d n]
  have l: "map left_of (timers ?s1) = map tl (filter (\<lambda>xs. xs \<noteq> []) (batch_rows bs))"
    unfolding e using assms(2) by (simp add: comp_def drop_Suc)
  have len: "length (filter (\<lambda>xs. xs \<noteq> []) (batch_rows bs)) + length (filter (\<lambda>xs. \<not> xs \<noteq> []) (batch_rows bs)) = length (batch_rows bs)"
    by (rule sum_length_filter_compl)
  show "requests (run_timers ?s1) = requests s @ timed_rounds (now s) (transpose (batch_rows bs))"
    using R l by (simp add: e timed_rounds_transpose[of "now s"])
  show "timers (run_timers ?s1) = []" using R by simp
  show "resolved (run_timers ?s1) = resolved s + length bs"
    using R len assms(2) by (simp add: e batch_rows_def)
qed

lemma single_batch_run:
  assumes "timers s = []"
  shows "requests (run_timers (prefetchBoundsAtZoom bounds zoom s)) =
     requests s @ (if mainTileLayer s then timed_rounds (now s) (map (\<lambda>t. [t]) (tilesToFetch bounds zoom)) else [])"
proof (cases "mainTileLayer s")
  case True
  have "prefetchBoundsAtZoom bounds zoom s = start_batches [(bounds, zoom)] s"
    by (simp add: start_batches_def)
  then show ?thesis
    using batches_run(1)[OF True assms, of "[(bounds, zoom)]"] True
    by (simp add: batch_rows_def transpose_single)
next
  case False
  then show ?thesis using assms
    by (simp add: prefetchBoundsAtZoom_def run_timers_idle)
qed

lemma batch_rows_short: "\<forall>row\<in>set (batch_rows bs). length row \<le> 20"
  by (auto simp: batch_rows_def length_tilesToFetch)

lemma pass_run:
  assumes "mainTileLayer s" "timers s = []"
    and "group_posts \<lparr>regions = [], countries = [], cities = []\<rparr> posts = Inr g"
  shows "prefetch_pass (Some posts) s = Inr (run_timers (start_batches (pass_batches g) s))"
  using assms by (simp add: prefetch_pass_def prefetchTilesForCoffeePosts_def pass_as_batches)

lemma pass_requests:
  assumes "mainTileLayer s" "timers s = []"
  shows "requests (run_timers (start_batches bs s)) =
     requests s @ concat (map (\<lambda>k. map (mk_request (now s + 50 * k)) (round_tiles (batch_rows bs) k)) [0..<20])"
  using batches_run(1)[OF assms, of bs] rounds_explicit[OF batch_rows_short, of "now s" bs]
  by simp

lemma pass_tiles:
  assumes "mainTileLayer s" "timers s = []"
  shows "map req_tile (requests (run_timers (start_batches bs s))) =
     map req_tile (requests s) @ concat (map (round_tiles (batch_rows bs)) [0..<20])"
proof -
  have "map req_tile (concat (map (\<lambda>k. map (mk_request (now s + 50 * k)) (round_tiles (batch_rows bs) k)) ks))
      = concat (map (round_tiles (batch_rows bs)) ks)" for ks
    by (induction ks) (simp_all add: req_tile_mk_request del: map_map)
  then show ?thesis by (simp add: pass_requests[OF assms])
qed

lemma first_request:
  assumes "mainTileLayer s" "timers s = []" "requests s = []"
    and "batch_rows bs = (t # ts) # rows"
  shows "\<exists>rest. requests (run_timers (start_batches bs s)) = mk_request (now s) t # rest"
  using batches_run(1)[OF assms(1,2), of bs] assms(3,4) by simp

subsection \<open>Image events\<close>

lemma handle_failure: "is_failure e \<Longrightarrow> handle_event s e = s"
  by (cases e) (simp_all add: is_failure_def img_onerror_def)

lemma failures_ignored:
  "foldl handle_event s evs = foldl handle_event s (filter (\<lambda>e. \<not> is_failure e) evs)"
  by (induction evs arbitrary: s) (simp_all add: handle_failure)

subsection \<open>Markers and grouping\<close>

lemma group_post_unusable: "\<not> usable p \<Longrightarrow> group_post g p = Inr g"
  by (auto simp: group_post_def usable_def)

lemma group_posts_append:
  "group_posts g (ps @ qs) = (case group_posts g ps of Inl e \<Rightarrow> Inl e | Inr g' \<Rightarrow> group_posts g' qs)"
  by (induction ps arbitrary: g) (simp_all split: sum.splits)

lemma group_posts_skip: "\<not> usable p \<Longrightarrow> group_posts g (ps @ p # qs) = group_posts g (ps @ qs)"
  by (simp add: group_posts_append group_post_unusable split: sum.splits)

lemma foldl_markers_skip:
  "\<not> usable p \<Longrightarrow>
   foldl (\<lambda>markers p.
        if truthy (latitude p) \<and> truthy (longitude p)
        then markers @ [\<lparr>marker_at = (the_number (latitude p), the_number (longitude p)),
                           marker_post = p\<rparr>]
        else markers) acc (ps @ p # qs)
   = foldl (\<lambda>markers p.
        if truthy (latitude p) \<and> truthy (longitude p)
        then markers @ [\<lparr>marker_at = (the_number (latitude p), the_number (longitude p)),
                           marker_post = p\<rparr>]
        else markers) acc (ps @ qs)"
  by (auto simp: usable_def)

lemma addMarkers_skip: "\<not> usable p \<Longrightarrow> addMarkers (ps @ p # qs) = addMarkers (ps @ qs)"
  unfolding addMarkers_def by (rule foldl_markers_skip)

lemma addMarkers_filter:
  "addMarkers ps = map (\<lambda>p. \<lparr>marker_at = coord_of p, marker_post = p\<rparr>) (filter usable ps)"
proof -
  have "foldl (\<lambda>markers p.
        if truthy (latitude p) \<and> truthy (longitude p)
        then markers @ [\<lparr>marker_at = (the_number (latitude p), the_number (longitude p)),
                           marker_post = p\<rparr>]
        else markers) acc ps = acc @ map (\<lambda>p. \<lparr>marker_at = coord_of p, marker_post = p\<rparr>) (filter usable ps)"
    for acc
    by (induction ps arbitrary: acc) (simp_all add: usable_def coord_of_def)
  then show ?thesis by (simp add: addMarkers_def)
qed

lemma push_coord_map_of:
  assumes "push_coord obj k c = Inr obj'"
  shows "map_of obj' = (map_of obj)(k \<mapsto> (case map_of obj k of None \<Rightarrow> [] | Some cs \<Rightarrow> cs) @ [c])"
proof (cases "map_of obj k")
  case None
  then have "obj' = obj @ [(k, [c])]" using assms by (auto simp: push_coord_def split: if_splits)
  then show ?thesis using None by (auto simp: map_add_def fun_eq_iff split: option.splits)
next
  case (Some cs)
  then have "obj' = AList.update k (cs @ [c]) obj" using assms by (simp add: push_coord_def)
  then show ?thesis using Some by (simp add: update_conv')
qed

lemma map_sum_id_Inr: "(map_sum id f x = Inr y) = (\<exists>r. x = Inr r \<and> y = f r)"
  by (cases x) auto

lemma group_post_steps:
  assumes "group_post g p = Inr g'"
  shows "step_ok (regions g) (filed_under continent_key ''unknown'' p) (coord_of p) (regions g')"
    and "step_ok (countries g) (filed_under country ''Unknown'' p) (coord_of p) (countries g')"
    and "step_ok (cities g) (filed_under city ''Unknown'' p) (coord_of p) (cities g')"
proof -
  show "step_ok (regions g) (filed_under continent_key ''unknown'' p) (coord_of p) (regions g')"
    using assms
    by (cases "continent p"; cases "country p"; cases "city p")
       (auto simp: group_post_def step_ok_def filed_under_def usable_def continent_key_def coord_of_def
          Let_def map_sum_id_Inr split: if_splits sum.splits)
  show "step_ok (countries g) (filed_under country ''Unknown'' p) (coord_of p) (countries g')"
    using assms
    by (cases "continent p"; cases "country p"; cases "city p")
       (auto simp: group_post_def step_ok_def filed_under_def usable_def continent_key_def coord_of_def
          Let_def map_sum_id_Inr split: if_splits sum.splits)
  show "step_ok (cities g) (filed_under city ''Unknown'' p) (coord_of p) (cities g')"
    using assms
    by (cases "continent p"; cases "country p"; cases "city p")
       (auto simp: group_post_def step_ok_def filed_under_def usable_def continent_key_def coord_of_def
          Let_def map_sum_id_Inr split: if_splits sum.splits)
qed

lemma step_ok_map_of:
  assumes "step_ok obj fo c obj'"
  shows "map_of obj' k =
     (if fo = Some k then Some ((case map_of obj k of None \<Rightarrow> [] | Some cs \<Rightarrow> cs) @ [c])
      else map_of obj k)"
proof (cases fo)
  case None
  then show ?thesis using assms by (simp add: step_ok_def)
next
  case (Some k')
  then have "push_coord obj k' c = Inr obj'" using assms by (simp add: step_ok_def)
  from push_coord_map_of[OF this] show ?thesis using Some by auto
qed

lemma steps_map_of:
  assumes step: "\<And>g p g'. group_post g p = Inr g' \<Longrightarrow> step_ok (sel g) (f p) (coord_of p) (sel g')"
    and run: "group_posts g posts = Inr g'"
  shows "map_of (sel g') k =
     (if map coord_of (filter (\<lambda>p. f p = Some k) posts) = [] then map_of (sel g) k
      else Some ((case map_of (sel g) k of None \<Rightarrow> [] | Some cs \<Rightarrow> cs)
                 @ map coord_of (filter (\<lambda>p. f p = Some k) posts)))"
  using run
proof (induction posts arbitrary: g)
  case Nil
  then show ?case by simp
next
  case (Cons p posts)
  from Cons.prems obtain g1 where g1: "group_post g p = Inr g1" and rest: "group_posts g1 posts = Inr g'"
    by (auto split: sum.splits)
  note one = step_ok_map_of[OF step[OF g1], of k]
  note IH = Cons.IH[OF rest]
  show ?case
  proof (cases "f p = Some k")
    case True
    then show ?thesis using IH one by (simp split: option.splits)
  next
    case False
    then show ?thesis using IH one by simp
  qed
qed

lemma filed_under_filter:
  "map coord_of (filter (\<lambda>p. filed_under key placeholder p = Some k) posts) =
     (if k = [] \<or> k = placeholder then [] else members key k posts)"
proof -
  have "(filed_under key placeholder p = Some k) = (k \<noteq> [] \<and> k \<noteq> placeholder \<and> usable p \<and> key p = Some k)"
    for p by (auto simp: filed_under_def split: option.splits)
  then show ?thesis by (simp add: members_def)
qed

lemma grouping_correct:
  assumes "group_posts \<lparr>regions = [], countries = [], cities = []\<rparr> posts = Inr g"
  shows "map_of (regions g) k = expected_group continent_key ''unknown'' posts k"
    and "map_of (countries g) k = expected_group country ''Unknown'' posts k"
    and "map_of (cities g) k = expected_group city ''Unknown'' posts k"
proof -
  show "map_of (regions g) k = expected_group continent_key ''unknown'' posts k"
    using steps_map_of[where sel = regions and f = "filed_under continent_key ''unknown''",
        OF group_post_steps(1) assms, of k]
    by (simp add: filed_under_filter expected_group_def)
  show "map_of (countries g) k = expected_group country ''Unknown'' posts k"
    using steps_map_of[where sel = countries and f = "filed_under country ''Unknown''",
        OF group_post_steps(2) assms, of k]
    by (simp add: filed_under_filter expected_group_def)
  show "map_of (cities g) k = expected_group city ''Unknown'' posts k"
    using steps_map_of[where sel = cities and f = "filed_under city ''Unknown''",
        OF group_post_steps(3) assms, of k]
    by (simp add: filed_under_filter expected_group_def)
qed

lemma no_key_iff: "map_of obj k = None \<longleftrightarrow> k \<notin> fst ` set obj"
  by (simp add: map_of_eq_None_iff)

lemma Object_entries_Nil [simp]: "Object_entries [] = []"
  by (simp add: Object_entries_def)

lemma Object_entries_filter:
  "Object_entries (filter (\<lambda>e. P (snd e)) obj) = filter (\<lambda>e. P (snd e)) (Object_entries obj)"
proof -
  have c: "filter Q (filter R xs) = filter R (filter Q xs)" for Q R and xs :: "(string \<times> (real \<times> real) list) list"
    by (induction xs) auto
  show ?thesis
    unfolding Object_entries_def filter_append filter_sort
    by (simp only: c[of "\<lambda>e. P (snd e)"])
qed

lemma concat_map_filter_empty:
  "(\<And>x. \<not> P x \<Longrightarrow> f x = []) \<Longrightarrow> concat (map f (filter P xs)) = concat (map f xs)"
  by (induction xs) auto

lemma city_views_only_multiple:
  "city_views cs s = city_views (filter (\<lambda>e. 1 < length (snd e)) cs) s"
proof -
  have "group_batches 0.3 12 14 1 (filter (\<lambda>e. 1 < length (snd e)) cs) = group_batches 0.3 12 14 1 cs"
    unfolding group_batches_def Object_entries_filter[of "\<lambda>v. 1 < length v"]
    by (rule concat_map_filter_empty) simp
  then show ?thesis by (simp add: city_views_batches)
qed

subsection \<open>Post Store\<close>

lemma store_insert_present:
  "rec_hash r \<in> hashes st \<Longrightarrow>
     fst (store_insert st r) = st \<and> \<not> snd (snd (store_insert st r))
     \<and> (\<exists>q\<in>set (store_rows st). rec_hash q = rec_hash r \<and> fst (snd (store_insert st r)) = rec_id q)"
proof -
  assume "rec_hash r \<in> hashes st"
  then obtain q where q: "find (\<lambda>q. rec_hash q = rec_hash r) (store_rows st) = Some q"
    by (cases "find (\<lambda>q. rec_hash q = rec_hash r) (store_rows st)")
       (auto simp: hashes_def find_None_iff)
  then have "q \<in> set (store_rows st)" "rec_hash q = rec_hash r"
    by (auto simp: find_Some_iff)
  then show ?thesis using q by (auto simp: store_insert_def)
qed

lemma store_insert_hashes:
  "hashes (fst (store_insert st r)) = insert (rec_hash r) (hashes st)"
proof (cases "find (\<lambda>q. rec_hash q = rec_hash r) (store_rows st)")
  case None
  then show ?thesis by (simp add: store_insert_def hashes_def)
next
  case (Some q)
  then have "q \<in> set (store_rows st)" "rec_hash q = rec_hash r"
    by (auto simp: find_Some_iff)
  then have "rec_hash r \<in> hashes st" unfolding hashes_def by (metis imageI)
  then show ?thesis using Some by (auto simp: store_insert_def)
qed

lemma import_one_hashes:
  "hashes (res_store (import_one h r x)) = insert (rec_hash (normalize_record h x)) (hashes (res_store r))"
proof -
  obtain st i added where e: "store_insert (res_store r) (normalize_record h x) = (st, i, added)"
    by (cases "store_insert (res_store r) (normalize_record h x)") auto
  have "hashes st = insert (rec_hash (normalize_record h x)) (hashes (res_store r))"
    using store_insert_hashes[of "res_store r" "normalize_record h x"] by (simp add: e)
  then show ?thesis by (simp add: import_one_def e)
qed

lemma foldl_import_hashes:
  "hashes (res_store (foldl (import_one h) r batch)) =
     hashes (res_store r) \<union> (\<lambda>x. rec_hash (normalize_record h x)) ` set batch"
  by (induction batch arbitrary: r) (auto simp: import_one_hashes)

lemma import_one_present:
  assumes "rec_hash (normalize_record h x) \<in> hashes (res_store r)"
  shows "import_one h r x = r\<lparr>skipped := skipped r + 1\<rparr>"
proof -
  obtain st i added where e: "store_insert (res_store r) (normalize_record h x) = (st, i, added)"
    by (cases "store_insert (res_store r) (normalize_record h x)") auto
  have "st = res_store r" "\<not> added"
    using store_insert_present[OF assms] by (simp_all add: e)
  then show ?thesis by (simp add: import_one_def e)
qed

lemma foldl_import_present:
  assumes "(\<lambda>x. rec_hash (normalize_record h x)) ` set batch \<subseteq> hashes (res_store r)"
  shows "foldl (import_one h) r batch = r\<lparr>skipped := skipped r + length batch\<rparr>"
  using assms
proof (induction batch arbitrary: r)
  case Nil
  then show ?case by simp
next
  case (Cons x batch)
  then have p: "rec_hash (normalize_record h x) \<in> hashes (res_store r)" by simp
  have "foldl (import_one h) r (x # batch) = foldl (import_one h) (r\<lparr>skipped := skipped r + 1\<rparr>) batch"
    by (simp add: import_one_present[OF p])
  also have "\<dots> = r\<lparr>skipped := skipped r + 1\<rparr>\<lparr>skipped := skipped (r\<lparr>skipped := skipped r + 1\<rparr>) + length batch\<rparr>"
    by (rule Cons.IH) (use Cons.prems in simp)
  finally show ?case by simp
qed

lemma import_twice:
  "import_batch h (res_store (import_batch h st batch)) batch =
     \<lparr>res_store = res_store (import_batch h st batch), inserted = 0, skipped = length batch\<rparr>"
proof -
  let ?st1 = "res_store (import_batch h st batch)"
  have "(\<lambda>x. rec_hash (normalize_record h x)) ` set batch \<subseteq> hashes ?st1"
    by (simp add: import_batch_def foldl_import_hashes)
  then show ?thesis
    unfolding import_batch_def[of h ?st1]
    by (subst foldl_import_present) simp_all
qed

subsection \<open>The examples\<close>

lemma fresh_simps: "mainTileLayer fresh" "timers fresh = []" "requests fresh = []" "now fresh = 0"
  by (simp_all add: fresh_def)

lemma upt_0_20: "[0..<20] = [0, 1, 2, 3, 4, 5, 6, 7, 8, 9, 10, 11, 12, 13, 14, 15, 16, 17, 18, 19::nat]"
  by code_simp

lemma europe_grouping:
  "group_posts \<lparr>regions = [], countries = [], cities = []\<rparr> europe_posts =
     Inr \<lparr>regions = [(''europe'', [(45, 4), (45, 44)])], countries = [], cities = []\<rparr>"
  by (simp add: europe_posts_def group_post_def push_coord_def toLowerCase_def replace_spaces_def
      is_space_def Object_prototype_keys_def Let_def)

lemma europe_entries:
  "Object_entries [(''europe'', cs)] = [(''europe'', cs)]"
  by (simp add: Object_entries_def array_index_def digit_of_def)

lemma europe_batches:
  "pass_batches \<lparr>regions = [(''europe'', [(45, 4), (45, 44)])], countries = [], cities = []\<rparr> =
     [(\<lparr>southWest = \<lparr>lat = 45, lng = -2\<rparr>, northEast = \<lparr>lat = 45, lng = 50\<rparr>\<rparr>, 4),
      (\<lparr>southWest = \<lparr>lat = 45, lng = -2\<rparr>, northEast = \<lparr>lat = 45, lng = 50\<rparr>\<rparr>, 6)]"
  by (simp add: pass_batches_def group_batches_def europe_entries extend_bounds_def pad_def Let_def)

lemma europe_tiles4:
  "tilesToFetch \<lparr>southWest = \<lparr>lat = 45, lng = -2\<rparr>, northEast = \<lparr>lat = 45, lng = 50\<rparr>\<rparr> 4 =
     map (\<lambda>i. \<lparr>tile_x = Num i, tile_y = Num (slippy_y 45 4), tile_z = 4\<rparr>) [7, 8, 9, 10]"
  by (simp add: tilesToFetch_defined m45 slippy_x_def)

lemma europe_tiles6:
  "tilesToFetch \<lparr>southWest = \<lparr>lat = 45, lng = -2\<rparr>, northEast = \<lparr>lat = 45, lng = 50\<rparr>\<rparr> 6 =
     map (\<lambda>i. \<lparr>tile_x = Num i, tile_y = Num (slippy_y 45 6), tile_z = 6\<rparr>) [31, 32, 33, 34, 35, 36, 37, 38, 39, 40]"
  by (simp add: tilesToFetch_defined m45 slippy_x_def)

lemma europe_rows:
  "batch_rows (pass_batches \<lparr>regions = [(''europe'', [(45, 4), (45, 44)])], countries = [], cities = []\<rparr>) =
    [map (\<lambda>i. \<lparr>tile_x = Num i, tile_y = Num (slippy_y 45 4), tile_z = 4\<rparr>) [7, 8, 9, 10],
     map (\<lambda>i. \<lparr>tile_x = Num i, tile_y = Num (slippy_y 45 6), tile_z = 6\<rparr>) [31, 32, 33, 34, 35, 36, 37, 38, 39, 40]]"
  by (simp add: europe_batches batch_rows_def europe_tiles4 europe_tiles6)

lemma europe_pass:
  "prefetch_pass (Some europe_posts) fresh =
     Inr (run_timers (start_batches
       (pass_batches \<lparr>regions = [(''europe'', [(45, 4), (45, 44)])], countries = [], cities = []\<rparr>) fresh))"
  by (rule pass_run[OF fresh_simps(1,2) europe_grouping])

lemma europe_pass_tiles:
  "map req_tile (requests (projr (prefetch_pass (Some europe_posts) fresh))) =
    [\<lparr>tile_x = Num 7, tile_y = Num (slippy_y 45 4), tile_z = 4\<rparr>,
     \<lparr>tile_x = Num 31, tile_y = Num (slippy_y 45 6), tile_z = 6\<rparr>,
     \<lparr>tile_x = Num 8, tile_y = Num (slippy_y 45 4), tile_z = 4\<rparr>,
     \<lparr>tile_x = Num 32, tile_y = Num (slippy_y 45 6), tile_z = 6\<rparr>,
     \<lparr>tile_x = Num 9, tile_y = Num (slippy_y 45 4), tile_z = 4\<rparr>,
     \<lparr>tile_x = Num 33, tile_y = Num (slippy_y 45 6), tile_z = 6\<rparr>,
     \<lparr>tile_x = Num 10, tile_y = Num (slippy_y 45 4), tile_z = 4\<rparr>,
     \<lparr>tile_x = Num 34, tile_y = Num (slippy_y 45 6), tile_z = 6\<rparr>,
     \<lparr>tile_x = Num 35, tile_y = Num (slippy_y 45 6), tile_z = 6\<rparr>,
     \<lparr>tile_x = Num 36, tile_y = Num (slippy_y 45 6), tile_z = 6\<rparr>,
     \<lparr>tile_x = Num 37, tile_y = Num (slippy_y 45 6), tile_z = 6\<rparr>,
     \<lparr>tile_x = Num 38, tile_y = Num (slippy_y 45 6), tile_z = 6\<rparr>,
     \<lparr>tile_x = Num 39, tile_y = Num (slippy_y 45 6), tile_z = 6\<rparr>,
     \<lparr>tile_x = Num 40, tile_y = Num (slippy_y 45 6), tile_z = 6\<rparr>]"
  unfolding europe_pass
  by (simp add: pass_tiles[OF fresh_simps(1,2)] fresh_simps europe_rows round_tiles_def upt_0_20)

lemma wide_tiles8:
  "for_x (pt_x (tb_min (getTileBounds wide_bounds 8))) (getTileBounds wide_bounds 8) 8 [] =
     map (\<lambda>i. \<lparr>tile_x = Num i, tile_y = Num (slippy_y 45 8), tile_z = 8\<rparr>) [126..163]"
  by (simp add: getTileBounds_Num m45 wide_bounds_def for_x_rect slippy_x_def)


lemma portugal_grouping:
  "group_posts \<lparr>regions = [], countries = [], cities = []\<rparr> [lisbon1, nowhere, lisbon2, porto] =
     Inr portugal_groups"
  by (simp add: lisbon1_def lisbon2_def porto_def nowhere_def portugal_groups_def group_post_def
      push_coord_def toLowerCase_def replace_spaces_def is_space_def Object_prototype_keys_def Let_def)

lemma sample_first_import:
  "import_batch sample_hash empty_store sample_batch =
     \<lparr>res_store =
        \<lparr>store_rows =
           [\<lparr>rec_id = 1, rec_hash = ''Flat white|2024-05-01|Great crema'',
              rec_title = ''Flat white'', rec_date = ''2024-05-01'',
              rec_notes = ''Great crema'', rec_city = ''Lisbon'',
              rec_country = ''Portugal'', rec_continent = ''Europe''\<rparr>,
            \<lparr>rec_id = 2, rec_hash = ''Pour over|2024-06-11|Bright and clean'',
              rec_title = ''Pour over'', rec_date = ''2024-06-11'',
              rec_notes = ''Bright and clean'', rec_city = ''Unknown'',
              rec_country = ''Unknown'', rec_continent = ''Unknown''\<rparr>],
         next_id = 3\<rparr>,
      inserted = 2, skipped = 1\<rparr>"
  by (simp add: import_batch_def import_one_def store_insert_def normalize_record_def sample_hash_def
      sample_batch_def empty_store_def)

lemma dateline_grouping:
  "group_posts \<lparr>regions = [], countries = [], cities = []\<rparr> dateline_posts =
     Inr \<lparr>regions = [(''pacific'', [(60, - 177), (- 40, 170)])], countries = [], cities = []\<rparr>"
  by (simp add: dateline_posts_def group_post_def push_coord_def toLowerCase_def replace_spaces_def
      is_space_def Object_prototype_keys_def Let_def)

lemma dateline_batches:
  "pass_batches \<lparr>regions = [(''pacific'', [(60, - 177), (- 40, 170)])], countries = [], cities = []\<rparr> =
     [(dateline_bounds, 4), (dateline_bounds, 6)]"
  by (simp add: pass_batches_def group_batches_def Object_entries_def array_index_def digit_of_def
      extend_bounds_def pad_def Let_def dateline_bounds_def)

lemma dateline_tile_bounds:
  "getTileBounds dateline_bounds 4 =
     \<lparr>tb_min = \<lparr>pt_x = Num (- 3), pt_y = Num 2\<rparr>,
      tb_max = \<lparr>pt_x = Num 17, pt_y = Num (slippy_y (- 55) 4)\<rparr>\<rparr>"
proof -
  have "2 ^ 3 \<le> slippy_y (- 55) (Suc 3)" by (rule slippy_y_south) simp_all
  then have ys: "8 \<le> slippy_y (- 55) 4" by (simp add: eval_nat_numeral)
  have m: "mercator_defined (- 55)" "mercator_defined 75"
    by (rule mercator_defined_range, simp, simp)+
  have x: "slippy_x (- (4581 / 20)) 4 = - 3" "slippy_x (4441 / 20) 4 = 17"
    by (simp_all add: slippy_x_def)
  show ?thesis
    using ys by (simp add: getTileBounds_Num dateline_bounds_def m x slippy_y_75)
qed

lemma dateline_first_tiles:
  "\<exists>rest. tilesToFetch dateline_bounds 4 = \<lparr>tile_x = Num (- 3), tile_y = Num 2, tile_z = 4\<rparr> # rest"
proof -
  have "2 ^ 3 \<le> slippy_y (- 55) (Suc 3)" by (rule slippy_y_south) simp_all
  then have ys: "2 \<le> slippy_y (- 55) 4" by (simp add: eval_nat_numeral)
  have "for_x (Num (- 3)) (getTileBounds dateline_bounds 4) 4 [] =
      for_x (Num (- 2)) (getTileBounds dateline_bounds 4) 4
        (for_y (Num 2) (Num (slippy_y (- 55) 4)) (Num (- 3)) 4 [])"
    by (subst for_x.simps) (simp add: dateline_tile_bounds)
  also have "for_y (Num 2) (Num (slippy_y (- 55) 4)) (Num (- 3)) 4 [] =
      for_y (Num 3) (Num (slippy_y (- 55) 4)) (Num (- 3)) 4
        [\<lparr>tile_x = Num (- 3), tile_y = Num 2, tile_z = 4\<rparr>]"
    using ys by (subst for_y.simps) simp
  finally have f: "for_x (Num (- 3)) (getTileBounds dateline_bounds 4) 4 [] =
      for_x (Num (- 2)) (getTileBounds dateline_bounds 4) 4
        (for_y (Num 3) (Num (slippy_y (- 55) 4)) (Num (- 3)) 4
          [\<lparr>tile_x = Num (- 3), tile_y = Num 2, tile_z = 4\<rparr>])" .
  have keep_y: "\<exists>r. for_y y ymax x z (a # acc) = a # r" for y ymax x z a acc
    by (induction y ymax x z "a # acc" arbitrary: acc rule: for_y.induct)
       (subst for_y.simps, auto)
  have keep_x: "\<exists>r. for_x x tb z (a # acc) = a # r" for x tb z a acc
  proof (induction x tb z "a # acc" arbitrary: acc rule: for_x.induct)
    case (1 x tileBounds zoom)
    show ?case
    proof (cases "js_le x (pt_x (tb_max tileBounds))")
      case True
      obtain r where r: "for_y (pt_y (tb_min tileBounds)) (pt_y (tb_max tileBounds)) x zoom (a # acc) = a # r"
        using keep_y by blast
      show ?thesis using True 1(1)[OF True r] r by (subst for_x.simps) simp
    next
      case False
      then show ?thesis by (subst for_x.simps) simp
    qed
  qed
  obtain r1 where r1: "for_y (Num 3) (Num (slippy_y (- 55) 4)) (Num (- 3)) 4
          [\<lparr>tile_x = Num (- 3), tile_y = Num 2, tile_z = 4\<rparr>] =
        \<lparr>tile_x = Num (- 3), tile_y = Num 2, tile_z = 4\<rparr> # r1"
    using keep_y by blast
  obtain r2 where r2: "for_x (Num (- 2)) (getTileBounds dateline_bounds 4) 4
        (\<lparr>tile_x = Num (- 3), tile_y = Num 2, tile_z = 4\<rparr> # r1) =
        \<lparr>tile_x = Num (- 3), tile_y = Num 2, tile_z = 4\<rparr> # r2"
    using keep_x by blast
  show ?thesis
    unfolding tilesToFetch_def Let_def
    by (simp add: dateline_tile_bounds[THEN arg_cong, of "\<lambda>b. pt_x (tb_min b)"] f r1 r2 maxTiles_def)
qed

lemma dateline_first_request:
  "\<exists>rest. requests (projr (prefetch_pass (Some dateline_posts) fresh)) =
     mk_request 0 \<lparr>tile_x = Num (- 3), tile_y = Num 2, tile_z = 4\<rparr> # rest"
proof -
  obtain r4 where r4: "tilesToFetch dateline_bounds 4 = \<lparr>tile_x = Num (- 3), tile_y = Num 2, tile_z = 4\<rparr> # r4"
    using dateline_first_tiles by blast
  have rows: "batch_rows [(dateline_bounds, 4), (dateline_bounds, 6)] =
      (\<lparr>tile_x = Num (- 3), tile_y = Num 2, tile_z = 4\<rparr> # r4) # [tilesToFetch dateline_bounds 6]"
    by (simp add: batch_rows_def r4)
  show ?thesis
    unfolding pass_run[OF fresh_simps(1,2) dateline_grouping] dateline_batches
    using first_request[OF fresh_simps(1,2,3) rows] by (simp add: fresh_simps)
qed

section \<open>The claims\<close>

subsection \<open>Tile indices\<close>






subsection \<open>One batch\<close>

text \<open>
  Claim C3. One call of \<^verbatim>\<open>prefetchBoundsAtZoom\<close>, run until no timer is
  pending, issues at most 20 requests, whatever the bounds and the zoom level:
  the requests are those for the first 20 enumerated tiles, in order (and none
  when \<^verbatim>\<open>window.mainTileLayer\<close> is not set).
\<close>

theorem prefetchBoundsAtZoom_at_most_20:
  assumes "timers s = []"
  shows "\<exists>new. requests (run_timers (prefetchBoundsAtZoom bounds zoom s)) = requests s @ new
     \<and> length new \<le> 20
     \<and> map req_tile new =
         (if mainTileLayer s
          then take 20 (for_x (pt_x (tb_min (getTileBounds bounds zoom))) (getTileBounds bounds zoom) zoom [])
          else [])"
proof -
  let ?new = "if mainTileLayer s then timed_rounds (now s) (map (\<lambda>t. [t]) (tilesToFetch bounds zoom)) else []"
  have t: "map req_tile ?new = (if mainTileLayer s then tilesToFetch bounds zoom else [])"
    by (simp add: req_tile_timed_rounds)
  have l: "length ?new = length (map req_tile ?new)" by simp
  have "length ?new \<le> 20"
    unfolding l t using length_tilesToFetch[of bounds zoom] by simp
  moreover have "map req_tile ?new = (if mainTileLayer s
          then take 20 (for_x (pt_x (tb_min (getTileBounds bounds zoom))) (getTileBounds bounds zoom) zoom [])
          else [])"
    unfolding t by (simp add: tilesToFetch_def Let_def maxTiles_def)
  ultimately show ?thesis using single_batch_run[OF assms] by blast
qed

text \<open>At zoom 8 the box of the two posts covers 38 tiles; the first 20 are requested.\<close>

theorem prefetchBoundsAtZoom_at_most_20_witness:
  "timers fresh = [] \<and>
   map req_tile (requests (run_timers (prefetchBoundsAtZoom wide_bounds 8 fresh))) =
     map (\<lambda>i. \<lparr>tile_x = Num i, tile_y = Num (slippy_y 45 8), tile_z = 8\<rparr>) [126..145]
   \<and> length (for_x (pt_x (tb_min (getTileBounds wide_bounds 8))) (getTileBounds wide_bounds 8) 8 []) = 38"
proof -
  have f: "timers fresh = []" "mainTileLayer fresh" "requests fresh = []" by (simp_all add: fresh_def)
  have t: "take 20 (map (\<lambda>i. \<lparr>tile_x = Num i, tile_y = Num (slippy_y 45 8), tile_z = 8\<rparr>) [126..163])
         = map (\<lambda>i. \<lparr>tile_x = Num i, tile_y = Num (slippy_y 45 8), tile_z = 8\<rparr>) [126..145]"
    by (simp add: take_map upto_rec_numeral)
  show ?thesis
    using prefetchBoundsAtZoom_at_most_20[OF f(1), of wide_bounds 8] f t
    by (auto simp: wide_tiles8)
qed

text \<open>
  Claim C8 does not hold for a tile whose indices have a negative sum that 4
  does not divide. At the tile \<open>(-3, 2, 4)\<close> the sum is \<open>-1\<close> and so is the
  remainder; \<^verbatim>\<open>subdomains[-1]\<close> is \<^verbatim>\<open>undefined\<close>, and the request goes to a
  host that is none of the four subdomains. This tile is the first one that
  the pass requests for the two posts on either side of the date line. (For a
  sum that is not negative the URL is the one of the claim:
  \<open>tile_url_nonneg\<close>.)
\<close>

theorem negative_index_sum_requests_undefined_host:
  "map src (requests (prefetchTile (Num (- 3)) (Num 2) 4 fresh)) =
     [''https://undefined.basemaps.cartocdn.com/dark_all/4/-3/2.png'']
   \<and> \<not> isl (prefetch_pass (Some dateline_posts) fresh)
   \<and> req_tile (hd (requests (projr (prefetch_pass (Some dateline_posts) fresh)))) =
       \<lparr>tile_x = Num (- 3), tile_y = Num 2, tile_z = 4\<rparr>
   \<and> src (hd (requests (projr (prefetch_pass (Some dateline_posts) fresh)))) =
       ''https://undefined.basemaps.cartocdn.com/dark_all/4/-3/2.png''"
proof -
  obtain rest where r: "requests (projr (prefetch_pass (Some dateline_posts) fresh)) =
     mk_request 0 \<lparr>tile_x = Num (- 3), tile_y = Num 2, tile_z = 4\<rparr> # rest"
    using dateline_first_request by blast
  have u: "tile_url (Num (- 3)) (Num 2) 4 = ''https://undefined.basemaps.cartocdn.com/dark_all/4/-3/2.png''"
    by (simp add: tile_url_def Let_def subdomains_def show_int_def show_nat.simps digit_char_def)
  have i: "\<not> isl (prefetch_pass (Some dateline_posts) fresh)"
    by (simp add: pass_run[OF fresh_simps(1,2) dateline_grouping])
  show ?thesis
    unfolding r using i prefetchTile_negative_sum by (simp add: mk_request_def u)
qed

text \<open>
  Claim C6. The error handler of a tile image leaves the state as it is: it
  issues no request, registers no timer and raises nothing. So the failures
  can be dropped from any sequence of events without changing what the pass
  does.
\<close>

theorem tile_failure_ignored:
  "img_onerror img s = s
   \<and> foldl handle_event s evs = foldl handle_event s (filter (\<lambda>e. \<not> is_failure e) evs)"
  using failures_ignored[of s evs] by (simp add: img_onerror_def)

text \<open>Two failures among the first two timer events of a batch.\<close>

theorem tile_failure_ignored_witness:
  "img_onerror failed_image (prefetchTile (Num 7) (Num 5) 4 fresh) = prefetchTile (Num 7) (Num 5) 4 fresh
   \<and> foldl handle_event (prefetchBoundsAtZoom wide_bounds 4 fresh)
        [ImageFailed failed_image, TimerFires, ImageFailed failed_image, TimerFires]
     = foldl handle_event (prefetchBoundsAtZoom wide_bounds 4 fresh) [TimerFires, TimerFires]"
  using tile_failure_ignored[of failed_image "prefetchTile (Num 7) (Num 5) 4 fresh"
      "[ImageFailed failed_image, TimerFires, ImageFailed failed_image, TimerFires]"]
    tile_failure_ignored[of failed_image "prefetchBoundsAtZoom wide_bounds 4 fresh"
      "[ImageFailed failed_image, TimerFires, ImageFailed failed_image, TimerFires]"]
  by (simp add: is_failure_def img_onerror_def)

subsection \<open>The whole pass\<close>

text \<open>
  Claim C4, amended. Batches are started group by group and zoom-ascending
  (every continent group at zoom 4 and then 6, then every country group at
  zoom 8 and then 10, then every city group with more than one member at zoom
  12 and then 14), and each batch issues its first request when it is started.
  The later requests are issued in rounds: round \<open>k\<close> issues tile number \<open>k\<close>
  of every batch that has one, in the order in which the batches were started.
  So the batches of a pass, also the two of one group, are interleaved tile by
  tile.
\<close>

theorem batches_start_in_order_and_interleave:
  assumes "mainTileLayer s" and "timers s = []"
    and "group_posts \<lparr>regions = [], countries = [], cities = []\<rparr> posts = Inr g"
  shows "\<exists>s'. prefetch_pass (Some posts) s = Inr s'
     \<and> map req_tile (requests s') =
         map req_tile (requests s) @ concat (map (round_tiles (batch_rows (pass_batches g))) [0..<20])"
  using pass_run[OF assms] pass_tiles[OF assms(1,2)] by simp

text \<open>The pass over the two posts on the 45th parallel, by zoom level and column.\<close>

theorem batches_start_in_order_and_interleave_witness:
  "mainTileLayer fresh \<and> timers fresh = []
   \<and> group_posts \<lparr>regions = [], countries = [], cities = []\<rparr> europe_posts =
        Inr \<lparr>regions = [(''europe'', [(45, 4), (45, 44)])], countries = [], cities = []\<rparr>
   \<and> map (\<lambda>r. (tile_z (req_tile r), tile_x (req_tile r)))
         (requests (projr (prefetch_pass (Some europe_posts) fresh))) =
       [(4, Num 7), (6, Num 31), (4, Num 8), (6, Num 32), (4, Num 9), (6, Num 33), (4, Num 10),
        (6, Num 34), (6, Num 35), (6, Num 36), (6, Num 37), (6, Num 38), (6, Num 39), (6, Num 40)]"
proof -
  from batches_start_in_order_and_interleave[OF fresh_simps(1,2) europe_grouping]
  obtain s' where s': "prefetch_pass (Some europe_posts) fresh = Inr s'"
    and t: "map req_tile (requests s') = map req_tile (requests fresh)
       @ concat (map (round_tiles (batch_rows (pass_batches
           \<lparr>regions = [(''europe'', [(45, 4), (45, 44)])], countries = [], cities = []\<rparr>))) [0..<20])"
    by blast
  have "map (\<lambda>r. (tile_z (req_tile r), tile_x (req_tile r))) (requests s') =
        map (\<lambda>t. (tile_z t, tile_x t)) (map req_tile (requests s'))"
    by (simp add: comp_def)
  also have "\<dots> = [(4, Num 7), (6, Num 31), (4, Num 8), (6, Num 32), (4, Num 9), (6, Num 33), (4, Num 10),
        (6, Num 34), (6, Num 35), (6, Num 36), (6, Num 37), (6, Num 38), (6, Num 39), (6, Num 40)]"
    unfolding t by (simp add: fresh_simps europe_rows round_tiles_def upt_0_20)
  finally show ?thesis using s' fresh_simps(1,2) europe_grouping by simp
qed

text \<open>
  Claim C4 as stated fails on that pass: there is one group, and its second
  request, at zoom 6, is issued before its third request, at zoom 4.
\<close>

theorem zoom_levels_interleave_counterexample:
  "\<not> isl (prefetch_pass (Some europe_posts) fresh)
   \<and> map (\<lambda>r. tile_z (req_tile r)) (requests (projr (prefetch_pass (Some europe_posts) fresh))) =
       [4, 6, 4, 6, 4, 6, 4, 6, 6, 6, 6, 6, 6, 6]
   \<and> \<not> zoom_ascending (requests (projr (prefetch_pass (Some europe_posts) fresh)))"
proof -
  have z: "map (\<lambda>r. tile_z (req_tile r)) (requests (projr (prefetch_pass (Some europe_posts) fresh))) =
       map tile_z (map req_tile (requests (projr (prefetch_pass (Some europe_posts) fresh))))"
    by (simp add: comp_def)
  have l: "map (\<lambda>r. tile_z (req_tile r)) (requests (projr (prefetch_pass (Some europe_posts) fresh))) =
       [4, 6, 4, 6, 4, 6, 4, 6, 6, 6, 6, 6, 6, 6]"
    unfolding z europe_pass_tiles by simp
  show ?thesis
    unfolding zoom_ascending_def l by (simp add: europe_pass)
qed

text \<open>
  Claim C5. On the virtual clock (timers fire when they are due and a callback
  takes no time) tile number \<open>k\<close> of every batch is requested \<open>50 * k\<close>
  milliseconds after the pass began: consecutive requests of a batch are 50 ms
  apart, and nothing else delays a request, so that all batches issue their
  tile number \<open>k\<close> at the same instant.
\<close>

theorem requests_spaced_by_50ms:
  assumes "mainTileLayer s" and "timers s = []"
    and "group_posts \<lparr>regions = [], countries = [], cities = []\<rparr> posts = Inr g"
  shows "\<exists>s'. prefetch_pass (Some posts) s = Inr s'
     \<and> requests s' =
         requests s @ concat (map (\<lambda>k. map (mk_request (now s + 50 * k))
                                     (round_tiles (batch_rows (pass_batches g)) k)) [0..<20])"
  using pass_run[OF assms] pass_requests[OF assms(1,2)] by simp

text \<open>The pass over the two posts on the 45th parallel, with the time of every request.\<close>

theorem requests_spaced_by_50ms_witness:
  "mainTileLayer fresh \<and> timers fresh = []
   \<and> group_posts \<lparr>regions = [], countries = [], cities = []\<rparr> europe_posts =
        Inr \<lparr>regions = [(''europe'', [(45, 4), (45, 44)])], countries = [], cities = []\<rparr>
   \<and> map (\<lambda>r. (req_time r, tile_z (req_tile r), tile_x (req_tile r)))
         (requests (projr (prefetch_pass (Some europe_posts) fresh))) =
       [(0, 4, Num 7), (0, 6, Num 31), (50, 4, Num 8), (50, 6, Num 32), (100, 4, Num 9),
        (100, 6, Num 33), (150, 4, Num 10), (150, 6, Num 34), (200, 6, Num 35), (250, 6, Num 36),
        (300, 6, Num 37), (350, 6, Num 38), (400, 6, Num 39), (450, 6, Num 40)]"
proof -
  from requests_spaced_by_50ms[OF fresh_simps(1,2) europe_grouping]
  obtain s' where s': "prefetch_pass (Some europe_posts) fresh = Inr s'"
    and t: "requests s' = requests fresh
       @ concat (map (\<lambda>k. map (mk_request (now fresh + 50 * k)) (round_tiles (batch_rows (pass_batches
           \<lparr>regions = [(''europe'', [(45, 4), (45, 44)])], countries = [], cities = []\<rparr>)) k)) [0..<20])"
    by blast
  have "map (\<lambda>r. (req_time r, tile_z (req_tile r), tile_x (req_tile r))) (requests s') =
       [(0, 4, Num 7), (0, 6, Num 31), (50, 4, Num 8), (50, 6, Num 32), (100, 4, Num 9),
        (100, 6, Num 33), (150, 4, Num 10), (150, 6, Num 34), (200, 6, Num 35), (250, 6, Num 36),
        (300, 6, Num 37), (350, 6, Num 38), (400, 6, Num 39), (450, 6, Num 40)]"
    unfolding t by (simp add: fresh_simps europe_rows round_tiles_def upt_0_20 mk_request_def)
  then show ?thesis using s' fresh_simps(1,2) europe_grouping by simp
qed

subsection \<open>Grouping\<close>

text \<open>
  Claim C7. When the grouping loop returns, each of the three dictionaries holds
  exactly one group for every key that is not empty, is not the placeholder
  (\<^verbatim>\<open>unknown\<close> for the lower-cased continent, \<^verbatim>\<open>Unknown\<close> for country and
  city) and has a usable post, with the coordinates of these posts in input
  order; no dictionary has a group for the placeholder; and the city views are
  the same as if the city groups with a single member were not there.
\<close>

theorem grouping_drops_unknown:
  assumes "group_posts \<lparr>regions = [], countries = [], cities = []\<rparr> posts = Inr g"
  shows "(\<forall>k. map_of (regions g) k = expected_group continent_key ''unknown'' posts k)
       \<and> (\<forall>k. map_of (countries g) k = expected_group country ''Unknown'' posts k)
       \<and> (\<forall>k. map_of (cities g) k = expected_group city ''Unknown'' posts k)
       \<and> ''unknown'' \<notin> fst ` set (regions g)
       \<and> ''Unknown'' \<notin> fst ` set (countries g)
       \<and> ''Unknown'' \<notin> fst ` set (cities g)
       \<and> city_views (cities g) s = city_views (filter (\<lambda>e. 1 < length (snd e)) (cities g)) s"
proof -
  note G = grouping_correct[OF assms]
  have "map_of (regions g) ''unknown'' = None" "map_of (countries g) ''Unknown'' = None"
    "map_of (cities g) ''Unknown'' = None"
    unfolding G by (simp_all add: expected_group_def)
  then have "''unknown'' \<notin> fst ` set (regions g)" "''Unknown'' \<notin> fst ` set (countries g)"
    "''Unknown'' \<notin> fst ` set (cities g)"
    by (simp_all add: no_key_iff)
  then show ?thesis using G city_views_only_multiple[of "cities g" s] by blast
qed

text \<open>Three posts in Portugal and one whose location is the placeholder.\<close>

theorem grouping_drops_unknown_witness:
  "group_posts \<lparr>regions = [], countries = [], cities = []\<rparr> [lisbon1, nowhere, lisbon2, porto] =
     Inr portugal_groups
   \<and> map_of (regions portugal_groups) ''unknown'' = None
   \<and> map_of (countries portugal_groups) ''Unknown'' = None
   \<and> map_of (cities portugal_groups) ''Unknown'' = None
   \<and> map_of (cities portugal_groups) ''Lisbon'' = Some [(38.71, - 9.14), (38.72, - 9.15)]
   \<and> city_views (cities portugal_groups) fresh =
       city_views [(''Lisbon'', [(38.71, - 9.14), (38.72, - 9.15)])] fresh"
proof -
  from grouping_drops_unknown[OF portugal_grouping, of fresh]
  have c: "city_views (cities portugal_groups) fresh =
      city_views (filter (\<lambda>e. 1 < length (snd e)) (cities portugal_groups)) fresh"
    and u: "''unknown'' \<notin> fst ` set (regions portugal_groups)"
      "''Unknown'' \<notin> fst ` set (countries portugal_groups)"
      "''Unknown'' \<notin> fst ` set (cities portugal_groups)"
    by blast+
  have f: "filter (\<lambda>e. 1 < length (snd e)) (cities portugal_groups) =
      [(''Lisbon'', [(38.71, - 9.14), (38.72, - 9.15)])]"
    by (simp add: portugal_groups_def)
  have l: "map_of (cities portugal_groups) ''Lisbon'' = Some [(38.71, - 9.14), (38.72, - 9.15)]"
    by (simp add: portugal_groups_def)
  have n: "map_of (regions portugal_groups) ''unknown'' = None"
    "map_of (countries portugal_groups) ''Unknown'' = None"
    "map_of (cities portugal_groups) ''Unknown'' = None"
    using u by (simp_all add: no_key_iff)
  from c have c': "city_views (cities portugal_groups) fresh =
      city_views [(''Lisbon'', [(38.71, - 9.14), (38.72, - 9.15)])] fresh"
    unfolding f .
  show ?thesis by (intro conjI portugal_grouping n l c')
qed

text \<open>
  Claim C9. A post whose latitude or longitude is \<open>0\<close>, \<^verbatim>\<open>null\<close> or
  \<^verbatim>\<open>undefined\<close> gets no marker and is in no group: removing it from the input
  changes neither the markers nor the grouping nor the prefetch pass.
\<close>

theorem falsy_coordinate_excluded:
  assumes "latitude p \<in> {JNumber 0, JNull, JUndefined} \<or> longitude p \<in> {JNumber 0, JNull, JUndefined}"
  shows "addMarkers (ps @ p # qs) = addMarkers (ps @ qs)
       \<and> group_posts g (ps @ p # qs) = group_posts g (ps @ qs)
       \<and> prefetchTilesForCoffeePosts (Some (ps @ p # qs)) s = prefetchTilesForCoffeePosts (Some (ps @ qs)) s"
proof -
  have u: "\<not> usable p" using assms by (auto simp: usable_def)
  show ?thesis
    by (simp add: addMarkers_skip[OF u] group_posts_skip[OF u] prefetchTilesForCoffeePosts_def)
qed

text \<open>A cafe on the equator.\<close>

theorem falsy_coordinate_excluded_witness:
  "latitude equator \<in> {JNumber 0, JNull, JUndefined}
   \<and> addMarkers [lisbon1, equator, porto] = addMarkers [lisbon1, porto]
   \<and> map marker_post (addMarkers [lisbon1, equator, porto]) = [lisbon1, porto]
   \<and> group_posts \<lparr>regions = [], countries = [], cities = []\<rparr> [lisbon1, equator, porto] =
       group_posts \<lparr>regions = [], countries = [], cities = []\<rparr> [lisbon1, porto]"
proof -
  have e: "latitude equator \<in> {JNumber 0, JNull, JUndefined}" by (simp add: equator_def)
  then have "latitude equator \<in> {JNumber 0, JNull, JUndefined}
      \<or> longitude equator \<in> {JNumber 0, JNull, JUndefined}" ..
  from falsy_coordinate_excluded[OF this, of "[lisbon1]" "[porto]"
      "\<lparr>regions = [], countries = [], cities = []\<rparr>" fresh]
  have "addMarkers [lisbon1, equator, porto] = addMarkers [lisbon1, porto]"
    "group_posts \<lparr>regions = [], countries = [], cities = []\<rparr> [lisbon1, equator, porto] =
       group_posts \<lparr>regions = [], countries = [], cities = []\<rparr> [lisbon1, porto]"
    by simp_all
  moreover have "map marker_post (addMarkers [lisbon1, porto]) = [lisbon1, porto]"
    by (simp add: addMarkers_def lisbon1_def porto_def)
  ultimately show ?thesis using e by simp
qed

subsection \<open>Importer\<close>

text \<open>
  Claim C2. Inserting a record whose dedup hash is already in the Post Store is
  a no-op that returns the id of the row with that hash, and importing a batch
  a second time inserts nothing: every record is counted as a skipped
  duplicate and the store is unchanged.
\<close>

theorem import_is_idempotent:
  "(rec_hash r \<in> hashes st \<longrightarrow>
      fst (store_insert st r) = st \<and> \<not> snd (snd (store_insert st r))
      \<and> (\<exists>q\<in>set (store_rows st). rec_hash q = rec_hash r \<and> fst (snd (store_insert st r)) = rec_id q))
   \<and> import_batch h (res_store (import_batch h st0 batch)) batch =
       \<lparr>res_store = res_store (import_batch h st0 batch), inserted = 0, skipped = length batch\<rparr>"
  using store_insert_present[of r st] import_twice[of h st0 batch] by blast

text \<open>A batch of three records, two of them equal, imported twice into an empty store.\<close>

theorem import_is_idempotent_witness:
  "rec_hash (normalize_record sample_hash (hd sample_batch))
     \<in> hashes (res_store (import_batch sample_hash empty_store sample_batch))
   \<and> store_insert (res_store (import_batch sample_hash empty_store sample_batch))
        (normalize_record sample_hash (hd sample_batch))
       = (res_store (import_batch sample_hash empty_store sample_batch), 1, False)
   \<and> inserted (import_batch sample_hash empty_store sample_batch) = 2
   \<and> inserted (import_batch sample_hash
        (res_store (import_batch sample_hash empty_store sample_batch)) sample_batch) = 0
   \<and> skipped (import_batch sample_hash
        (res_store (import_batch sample_hash empty_store sample_batch)) sample_batch) = 3
   \<and> store_rows (res_store (import_batch sample_hash
        (res_store (import_batch sample_hash empty_store sample_batch)) sample_batch))
       = store_rows (res_store (import_batch sample_hash empty_store sample_batch))"
proof -
  let ?st = "res_store (import_batch sample_hash empty_store sample_batch)"
  let ?r = "normalize_record sample_hash (hd sample_batch)"
  have h: "rec_hash ?r \<in> hashes ?st"
    by (simp add: sample_first_import hashes_def) (simp add: sample_batch_def normalize_record_def sample_hash_def)
  have i: "store_insert ?st ?r = (?st, 1, False)"
    by (simp add: sample_first_import) (simp add: store_insert_def sample_batch_def normalize_record_def sample_hash_def)
  have l: "length sample_batch = 3" by (simp add: sample_batch_def)
  have c: "import_batch sample_hash ?st sample_batch =
       \<lparr>res_store = ?st, inserted = 0, skipped = length sample_batch\<rparr>"
    using import_is_idempotent[where r = ?r and st = ?st and h = sample_hash and ?st0.0 = empty_store
        and batch = sample_batch]
    by (rule conjunct2)
  have f: "inserted (import_batch sample_hash empty_store sample_batch) = 2"
    by (simp add: sample_first_import)
  show ?thesis
    unfolding c using h i f l by simp
qed

end
